theory Spec2Isabelle
  imports Complex_Main
begin

text \<open>
  A model of the streaming client of the BA-Assist frontend and of the page that drives
  the analyse, revise, re-analyse loop with it: the frame parser and the promise chain of
  \<^verbatim>\<open>connectSSE\<close> (frontend/src/api/sse.ts), the hook \<^verbatim>\<open>useSSE\<close> that keeps the stream
  state of a round, and the body of the component \<^verbatim>\<open>IteratePage\<close> that commits a
  completed round to the history (frontend/src/pages/IteratePage.tsx). The statements
  marked C1 to C10 are the properties of the specification that were checked on it.
\<close>

section \<open>Text and JSON values\<close>

text \<open>
  JavaScript strings are modelled as HOL strings: one \<^typ>\<open>char\<close> per code unit, which
  covers the code units below 256. The text handed to the frame parser is the output of
  \<^verbatim>\<open>TextDecoder.decode(value, { stream: true })\<close>, so a chunk is the text decoded from
  one \<^verbatim>\<open>reader.read()\<close>; the decoder keeps an incomplete multi-byte sequence to itself.

  A JSON number is a \<^typ>\<open>real\<close>. \<^verbatim>\<open>JSON.parse\<close> is a built-in of the platform: every
  function that calls it takes it as the parameter \<open>parse\<close>, where \<open>None\<close> stands for the
  \<^verbatim>\<open>SyntaxError\<close> it throws.
\<close>

datatype json =
    JNull
  | JBool bool
  | JNum real
  | JStr string
  | JArr "json list"
  | JObj "(string \<times> json) list"

type_synonym json_parse = "string \<Rightarrow> json option"

text \<open>\<^verbatim>\<open>obj.key\<close> on a decoded payload: \<open>None\<close> is \<^verbatim>\<open>undefined\<close>.\<close>

fun field :: "json \<Rightarrow> string \<Rightarrow> json option" where
  "field (JObj kvs) k = map_of kvs k"
| "field _ k = None"

text \<open>\<^verbatim>\<open>line.startsWith(p)\<close>.\<close>

definition startsWith :: "string \<Rightarrow> string \<Rightarrow> bool" where
  "startsWith line p = (take (length p) line = p)"

text \<open>
  \<^verbatim>\<open>String.prototype.trim\<close> strips white space and line terminators at both ends; below
  256 these are TAB, LF, VT, FF, CR, SPACE and NBSP.
\<close>

definition is_white_space :: "char \<Rightarrow> bool" where
  "is_white_space c =
     (c = CHR 0x09 \<or> c = CHR 0x0A \<or> c = CHR 0x0B \<or> c = CHR 0x0C \<or> c = CHR 0x0D \<or>
      c = CHR 0x20 \<or> c = CHR 0xA0)"

definition trim :: "string \<Rightarrow> string" where
  "trim s = rev (dropWhile is_white_space (rev (dropWhile is_white_space s)))"

text \<open>
  \<^verbatim>\<open>buffer.split("\n")\<close>: the pieces between line feeds; the result always has a last
  piece, the text after the last line feed (empty when the text ends in one). The split
  of the rest is therefore never empty, and the second case below is not reached.
\<close>

fun split_newline :: "string \<Rightarrow> string list" where
  "split_newline [] = [[]]"
| "split_newline (c # cs) =
     (if c = CHR 0x0A then [] # split_newline cs
      else (case split_newline cs of
              piece # pieces \<Rightarrow> (c # piece) # pieces
            | [] \<Rightarrow> [[c]]))"

section \<open>The frame parser of \<^verbatim>\<open>connectSSE\<close> (frontend/src/api/sse.ts)\<close>

record sse_event =
  event :: string
  data :: json

text \<open>The wrapper \<^verbatim>\<open>{ raw: currentData }\<close> of the \<^verbatim>\<open>catch\<close> branch.\<close>

definition raw_payload :: "string \<Rightarrow> json" where
  "raw_payload d = JObj [(''raw'', JStr d)]"

text \<open>
  The \<^verbatim>\<open>try\<close>/\<^verbatim>\<open>catch\<close> around \<^verbatim>\<open>JSON.parse\<close>: the event handed to \<^verbatim>\<open>onEvent\<close>
  when a frame closes. The call of \<^verbatim>\<open>onEvent\<close> stands in the \<^verbatim>\<open>try\<close> block too; the
  callbacks are taken not to throw, so the \<^verbatim>\<open>catch\<close> branch is entered only when
  \<^verbatim>\<open>JSON.parse\<close> throws.
\<close>

definition close_frame :: "json_parse \<Rightarrow> string \<Rightarrow> string \<Rightarrow> sse_event" where
  "close_frame parse currentEvent currentData =
     (case parse currentData of
        Some v \<Rightarrow> \<lparr>event = currentEvent, data = v\<rparr>
      | None \<Rightarrow> \<lparr>event = currentEvent, data = raw_payload currentData\<rparr>)"

text \<open>
  The \<^verbatim>\<open>for (const line of lines)\<close> loop (sse.ts lines 42 to 57), with the two loop
  variables \<^verbatim>\<open>currentEvent\<close> and \<^verbatim>\<open>currentData\<close> as arguments; the result is the list
  of events passed to \<^verbatim>\<open>onEvent\<close>, in order. An empty string is falsy.
\<close>

fun process_lines :: "json_parse \<Rightarrow> string \<Rightarrow> string \<Rightarrow> string list \<Rightarrow> sse_event list" where
  "process_lines parse currentEvent currentData [] = []"
| "process_lines parse currentEvent currentData (line # lines) =
     (if startsWith line ''event: '' then
        process_lines parse (trim (drop 7 line)) currentData lines
      else if startsWith line ''data: '' then
        process_lines parse currentEvent (drop 6 line) lines
      else if line = [] \<and> currentEvent \<noteq> [] \<and> currentData \<noteq> [] then
        close_frame parse currentEvent currentData # process_lines parse [] [] lines
      else process_lines parse currentEvent currentData lines)"

text \<open>
  One turn of the \<^verbatim>\<open>while (true)\<close> loop after a read that is not \<^verbatim>\<open>done\<close> (sse.ts
  lines 35 to 57): the chunk is appended to the carry-over buffer, the last piece of the
  split becomes the new buffer (\<^verbatim>\<open>lines.pop() || ""\<close>), and \<^verbatim>\<open>currentEvent\<close> and
  \<^verbatim>\<open>currentData\<close> are declared afresh, as the source declares them inside the loop body.
\<close>

definition read_chunk :: "json_parse \<Rightarrow> string \<Rightarrow> string \<Rightarrow> sse_event list \<times> string" where
  "read_chunk parse buffer chunk =
     (let lines = split_newline (buffer @ chunk)
      in (process_lines parse [] [] (butlast lines), last lines))"

section \<open>The promise chain of \<^verbatim>\<open>connectSSE\<close>\<close>

text \<open>
  A JavaScript error with its \<^verbatim>\<open>name\<close> and \<^verbatim>\<open>message\<close>; \<^verbatim>\<open>new Error(m)\<close> has the
  name \<^verbatim>\<open>Error\<close>. A fetch, a body read or a \<^verbatim>\<open>response.text()\<close> whose signal has been
  aborted rejects with an error named \<^verbatim>\<open>AbortError\<close>.
\<close>

datatype js_error = JsError (name: string) (message: string)

definition new_Error :: "string \<Rightarrow> js_error" where
  "new_Error m = JsError ''Error'' m"

definition abort_error :: js_error where
  "abort_error = JsError ''AbortError'' ''signal is aborted without reason''"

text \<open>
  What a caller of \<^verbatim>\<open>connectSSE\<close> observes: the calls made to the two callbacks it
  passed, in order. \<open>OnError e\<close> stands for \<^verbatim>\<open>onError?.(e)\<close>.
\<close>

datatype callback = OnEvent sse_event | OnError js_error

text \<open>The \<^verbatim>\<open>.catch\<close> handler (sse.ts lines 60 to 64).\<close>

definition catch_handler :: "js_error \<Rightarrow> callback list" where
  "catch_handler err = (if name err \<noteq> ''AbortError'' then [OnError err] else [])"

text \<open>\<^verbatim>\<open>response.ok\<close>: the status is in the range 200 to 299.\<close>

definition response_ok :: "nat \<Rightarrow> bool" where
  "response_ok status = (200 \<le> status \<and> status \<le> 299)"

text \<open>The decimal digits of a number, as the template literal prints \<^verbatim>\<open>response.status\<close>.\<close>

fun decimal :: "nat \<Rightarrow> string" where
  "decimal n =
     (if n < 10 then [char_of (48 + n)]
      else decimal (n div 10) @ [char_of (48 + n mod 10)])"

declare decimal.simps [simp del]

text \<open>
  The asynchronous function of \<^verbatim>\<open>connectSSE\<close> is suspended at one \<^verbatim>\<open>await\<close> at a
  time: on \<^verbatim>\<open>fetch\<close>, on \<^verbatim>\<open>response.text()\<close> of a response that is not ok (with its
  status), or on \<^verbatim>\<open>reader.read()\<close> (with the carry-over buffer); or it has finished.
\<close>

datatype phase =
    Fetching
  | ReadingText nat
  | Reading string
  | Finished

text \<open>
  How the awaited promise settles: \<^verbatim>\<open>fetch\<close> resolves with a response (its status and
  whether \<^verbatim>\<open>response.body\<close> is present), \<^verbatim>\<open>response.text()\<close> resolves with the body,
  \<^verbatim>\<open>reader.read()\<close> resolves with a chunk of decoded text or with \<^verbatim>\<open>done\<close>, or the
  promise rejects.
\<close>

datatype settlement =
    Response nat bool
  | Text string
  | Chunk string
  | Done
  | Rejected js_error

text \<open>
  One resumption of the function (sse.ts lines 18 to 64): the callbacks it makes until it
  is suspended again, and the phase it is then in. A settlement that the awaited promise
  cannot produce is ignored.
\<close>

fun connection_step :: "json_parse \<Rightarrow> phase \<Rightarrow> settlement \<Rightarrow> callback list \<times> phase" where
  "connection_step parse Finished x = ([], Finished)"
| "connection_step parse ph (Rejected err) = (catch_handler err, Finished)"
| "connection_step parse Fetching (Response status has_body) =
     (if \<not> response_ok status then ([], ReadingText status)
      else if \<not> has_body then (catch_handler (new_Error ''No response body''), Finished)
      else ([], Reading []))"
| "connection_step parse (ReadingText status) (Text body) =
     (catch_handler (new_Error (''HTTP '' @ decimal status @ '': '' @ body)), Finished)"
| "connection_step parse (Reading buffer) (Chunk chunk) =
     (map OnEvent (fst (read_chunk parse buffer chunk)),
      Reading (snd (read_chunk parse buffer chunk)))"
| "connection_step parse (Reading buffer) Done = ([], Finished)"
| "connection_step parse ph x = ([], ph)"

text \<open>All the callbacks of one \<^verbatim>\<open>connectSSE\<close> call whose promises settle as listed.\<close>

fun connection_run :: "json_parse \<Rightarrow> phase \<Rightarrow> settlement list \<Rightarrow> callback list" where
  "connection_run parse ph [] = []"
| "connection_run parse ph (x # xs) =
     fst (connection_step parse ph x) @
     connection_run parse (snd (connection_step parse ph x)) xs"

definition connectSSE :: "json_parse \<Rightarrow> settlement list \<Rightarrow> callback list" where
  "connectSSE parse xs = connection_run parse Fetching xs"

section \<open>The hook \<^verbatim>\<open>useSSE\<close> (hooks/useSSE)\<close>

text \<open>
  \<^verbatim>\<open>SSEState<T>\<close>, with the result type \<open>'r\<close> for \<^verbatim>\<open>T\<close>. \<^verbatim>\<open>null\<close> is \<open>None\<close>.
\<close>

record 'r sse_state =
  loading :: bool
  progress :: string
  progressDetail :: "json option"
  result :: "'r option"
  error :: "string option"

text \<open>The argument of \<^verbatim>\<open>useState\<close>: the state before the first round.\<close>

definition initial_state :: "'r sse_state" where
  "initial_state =
     \<lparr>loading = False, progress = [], progressDetail = None, result = None, error = None\<rparr>"

text \<open>
  \<^verbatim>\<open>(event.data.message as string) || ""\<close>, for a message that is a string as the cast
  says, or absent. The payload is an object, as \<^verbatim>\<open>SSEEvent\<close> declares it; a payload
  \<^verbatim>\<open>null\<close>, on which the property read throws, is outside the model.
\<close>

definition progress_message :: "json \<Rightarrow> string" where
  "progress_message d = (case field d ''message'' of Some (JStr m) \<Rightarrow> m | _ \<Rightarrow> [])"

text \<open>
  The \<^verbatim>\<open>onEvent\<close> callback that \<^verbatim>\<open>start\<close> passes to \<^verbatim>\<open>connectSSE\<close> (lines 50 to 72),
  as the update it makes to the state. \<open>extractResult\<close> is the function that turns the
  \<^verbatim>\<open>complete\<close> event into the result: \<^verbatim>\<open>options.extractResult\<close>, or the cast of
  \<^verbatim>\<open>event.data\<close> to \<^verbatim>\<open>T\<close> when the caller gives none. The calls to
  \<^verbatim>\<open>options?.onProgress\<close> go to the caller and leave this state alone.
\<close>

definition on_event :: "(sse_event \<Rightarrow> 'r) \<Rightarrow> sse_event \<Rightarrow> 'r sse_state \<Rightarrow> 'r sse_state" where
  "on_event extractResult ev prev =
     (if event ev = ''progress'' then
        prev\<lparr>progress := progress_message (data ev), progressDetail := Some (data ev)\<rparr>
      else if event ev = ''dimension_complete'' \<or> event ev = ''step_complete'' \<or>
              event ev = ''artifact_complete'' then prev
      else if event ev = ''complete'' then
        \<lparr>loading = False, progress = [], progressDetail = None,
         result = Some (extractResult ev), error = None\<rparr>
      else prev)"

text \<open>The \<^verbatim>\<open>onError\<close> callback that \<^verbatim>\<open>start\<close> passes (lines 73 to 79).\<close>

definition on_error :: "js_error \<Rightarrow> 'r sse_state \<Rightarrow> 'r sse_state" where
  "on_error err prev = prev\<lparr>loading := False, error := Some (message err)\<rparr>"

fun deliver :: "(sse_event \<Rightarrow> 'r) \<Rightarrow> callback \<Rightarrow> 'r sse_state \<Rightarrow> 'r sse_state" where
  "deliver extractResult (OnEvent ev) st = on_event extractResult ev st"
| "deliver extractResult (OnError err) st = on_error err st"

text \<open>
  One call of \<^verbatim>\<open>connectSSE\<close>: the signal of the \<^verbatim>\<open>AbortController\<close> it returns and
  the suspension point of its asynchronous function. The hook's instance holds the state,
  the reference \<^verbatim>\<open>controllerRef\<close>, and the store of all the calls made so far; a
  controller is the index of its call in the store.
\<close>

record connection =
  aborted :: bool
  phase :: phase

record 'r useSSE =
  state :: "'r sse_state"
  controllerRef :: "nat option"
  connections :: "connection list"

definition initial_useSSE :: "'r useSSE" where
  "initial_useSSE = \<lparr>state = initial_state, controllerRef = None, connections = []\<rparr>"

text \<open>\<^verbatim>\<open>controllerRef.current?.abort()\<close>.\<close>

definition abort_current :: "'r useSSE \<Rightarrow> connection list" where
  "abort_current h =
     (case controllerRef h of
        None \<Rightarrow> connections h
      | Some c \<Rightarrow> (connections h)[c := (connections h ! c)\<lparr>aborted := True\<rparr>])"

text \<open>
  \<^verbatim>\<open>start\<close> (lines 23 to 85): the current controller is aborted, the state is replaced,
  \<^verbatim>\<open>connectSSE\<close> opens the request (a new call, suspended on \<^verbatim>\<open>fetch\<close>) and its
  controller is stored in \<^verbatim>\<open>controllerRef\<close>. The URL and the body of the request do not
  enter the model.
\<close>

definition start :: "'r useSSE \<Rightarrow> 'r useSSE" where
  "start h =
     (let aborted_first = abort_current h
      in \<lparr>state = \<lparr>loading = True, progress = ''Starting...'', progressDetail = None,
                   result = None, error = None\<rparr>,
          controllerRef = Some (length aborted_first),
          connections = aborted_first @ [\<lparr>aborted = False, phase = Fetching\<rparr>]\<rparr>)"

text \<open>\<^verbatim>\<open>cancel\<close> (lines 87 to 90).\<close>

definition cancel :: "'r useSSE \<Rightarrow> 'r useSSE" where
  "cancel h =
     h\<lparr>connections := abort_current h,
       state := (state h)\<lparr>loading := False, progress := []\<rparr>\<rparr>"

text \<open>
  The awaited promise of a call settles. Once the signal of the call is aborted the
  promise it awaits rejects with an \<^verbatim>\<open>AbortError\<close>, whatever the network would have
  delivered; this is the contract of \<^verbatim>\<open>fetch\<close> with an abort signal. The callbacks made
  by the resumed function are the closures of the \<^verbatim>\<open>start\<close> call, which all write the
  one state of the hook.
\<close>

definition settlement_callbacks :: "json_parse \<Rightarrow> connection \<Rightarrow> settlement \<Rightarrow> callback list \<times> phase" where
  "settlement_callbacks parse conn x =
     connection_step parse (phase conn) (if aborted conn then Rejected abort_error else x)"

definition settle ::
    "json_parse \<Rightarrow> (sse_event \<Rightarrow> 'r) \<Rightarrow> nat \<Rightarrow> settlement \<Rightarrow> 'r useSSE \<Rightarrow> 'r useSSE" where
  "settle parse extractResult c x h =
     (if c < length (connections h) then
        (let conn = connections h ! c;
             made = settlement_callbacks parse conn x
         in h\<lparr>state := fold (deliver extractResult) (fst made) (state h),
              connections := (connections h)[c := conn\<lparr>phase := snd made\<rparr>]\<rparr>)
      else h)"

section \<open>The page \<^verbatim>\<open>IteratePage\<close> (frontend/src/pages/IteratePage.tsx)\<close>

text \<open>
  The payload types of api/types.ts, with a JavaScript number as a \<^typ>\<open>real\<close>. Of
  \<^verbatim>\<open>AnalysisResult\<close> the page's controller reads \<^verbatim>\<open>iteration_number\<close> and
  \<^verbatim>\<open>overall_score\<close>; the fields it only hands to the report component are left out.
  \<^verbatim>\<open>result.result?.\<close> allows for an absent \<^verbatim>\<open>result\<close>, and \<^verbatim>\<open>comparison\<close> is declared
  optional.
\<close>

record comparison_report =
  previous_iteration :: real
  current_iteration :: real
  previous_score :: real
  current_score :: real
  score_delta :: real
  improved_dimensions :: "string list"
  regressed_dimensions :: "string list"
  resolved_issues :: "string list"
  new_issues :: "string list"

record analysis_result =
  overall_score :: real
  iteration_number :: real

record iteration_result =
  result :: "analysis_result option"
  comparison :: "comparison_report option"
  is_ready :: bool

record history_entry =
  iteration :: real
  score :: real

text \<open>
  The state of the page that its controller writes: \<^verbatim>\<open>threshold\<close>, \<^verbatim>\<open>history\<close>,
  \<^verbatim>\<open>isReady\<close> and \<^verbatim>\<open>comparison\<close>. The session id, the artifact text, the edit mode and
  the step checklist of \<^verbatim>\<open>handleProgress\<close> are not read by the code modelled here.
\<close>

record page =
  threshold :: real
  history :: "history_entry list"
  isReady :: bool
  comparison :: "comparison_report option"

definition initial_page :: page where
  "initial_page = \<lparr>threshold = 80, history = [], isReady = False, comparison = None\<rparr>"

text \<open>
  \<^verbatim>\<open>result.result?.iteration_number || 0\<close>, for \<^verbatim>\<open>result\<close> that is not \<^verbatim>\<open>null\<close>.
\<close>

definition declared_iteration :: "iteration_result \<Rightarrow> real" where
  "declared_iteration r =
     (case iteration_result.result r of None \<Rightarrow> 0 | Some a \<Rightarrow> iteration_number a)"

text \<open>
  The condition of the \<^verbatim>\<open>if\<close> in the body of the component (line 73), on the result
  of the hook and the history of this render.
\<close>

definition round_is_new :: "iteration_result option \<Rightarrow> page \<Rightarrow> bool" where
  "round_is_new res p =
     (case res of
        None \<Rightarrow> False
      | Some r \<Rightarrow> real (length (history p)) < declared_iteration r)"

text \<open>
  The three state updates of lines 74 to 80. Under the condition \<^verbatim>\<open>result.result\<close> is
  present; the other branches are never reached from \<open>render_pass\<close>.
\<close>

definition commit_round :: "iteration_result \<Rightarrow> page \<Rightarrow> page" where
  "commit_round r p =
     (case iteration_result.result r of
        None \<Rightarrow> p
      | Some a \<Rightarrow>
          p\<lparr>history := history p @ [\<lparr>iteration = iteration_number a, score = overall_score a\<rparr>],
            isReady := is_ready r,
            comparison := iteration_result.comparison r\<rparr>)"

text \<open>One evaluation of the component's body (lines 71 to 81).\<close>

definition render_pass :: "iteration_result option \<Rightarrow> page \<Rightarrow> page" where
  "render_pass res p =
     (case res of
        None \<Rightarrow> p
      | Some r \<Rightarrow> if round_is_new res p then commit_round r p else p)"

text \<open>
  A state update made while rendering makes React render the component again, with the
  same result of the hook, until a render makes no update. The bound that React puts on
  the number of such renders in a row is not modelled.
\<close>

function render :: "iteration_result option \<Rightarrow> page \<Rightarrow> page" where
  "render res p = (if round_is_new res p then render res (render_pass res p) else p)"
  by pat_completeness auto
termination
proof (relation "measure (\<lambda>(res, p). case res of
                   None \<Rightarrow> 0
                 | Some r \<Rightarrow> nat \<lceil>declared_iteration r\<rceil> - length (history p))")
  show "wf (measure (\<lambda>(res, p). case res of
                   None \<Rightarrow> 0
                 | Some r \<Rightarrow> nat \<lceil>declared_iteration r\<rceil> - length (history p)))"
    by simp
next
  fix res :: "iteration_result option" and p :: page
  assume new: "round_is_new res p"
  then obtain r where r: "res = Some r" and lt: "real (length (history p)) < declared_iteration r"
    by (auto simp: round_is_new_def split: option.splits)
  from lt obtain a where a: "iteration_result.result r = Some a"
    by (cases "iteration_result.result r") (auto simp: declared_iteration_def)
  have "real (length (history p)) < of_int \<lceil>declared_iteration r\<rceil>"
    using lt by linarith
  then have "length (history p) < nat \<lceil>declared_iteration r\<rceil>"
    by linarith
  then show "((res, render_pass res p), (res, p)) \<in> measure (\<lambda>(res, p). case res of
                   None \<Rightarrow> 0
                 | Some r \<Rightarrow> nat \<lceil>declared_iteration r\<rceil> - length (history p))"
    using r a new by (simp add: render_pass_def commit_round_def)
qed

declare render.simps [simp del]

section \<open>The page and its hook together\<close>

text \<open>
  What happens to the page, one task of the event loop at a time: \<^verbatim>\<open>runAnalysis\<close> calls
  \<^verbatim>\<open>analysis.start\<close> (from the upload, the re-analyse button, a saved edit or applied
  suggestions), the cancel button calls \<^verbatim>\<open>analysis.cancel\<close>, or the promise awaited by
  one of the \<^verbatim>\<open>connectSSE\<close> calls settles. The state updates of one task are applied
  together and then the component renders. \<open>typed\<close> is the cast
  \<^verbatim>\<open>event.data as unknown as IterationResult\<close> of \<^verbatim>\<open>extractResult\<close>: the typed reading
  of a payload.
\<close>

record system =
  analysis :: "iteration_result useSSE"
  page :: page

definition initial_system :: system where
  "initial_system = \<lparr>analysis = initial_useSSE, page = initial_page\<rparr>"

datatype action =
    RunAnalysis
  | Cancel
  | Settle nat settlement

fun hook_step ::
    "json_parse \<Rightarrow> (json \<Rightarrow> iteration_result) \<Rightarrow> action \<Rightarrow> iteration_result useSSE \<Rightarrow>
     iteration_result useSSE" where
  "hook_step parse typed RunAnalysis h = start h"
| "hook_step parse typed Cancel h = cancel h"
| "hook_step parse typed (Settle c x) h = settle parse (\<lambda>ev. typed (data ev)) c x h"

definition step :: "json_parse \<Rightarrow> (json \<Rightarrow> iteration_result) \<Rightarrow> action \<Rightarrow> system \<Rightarrow> system" where
  "step parse typed a sys =
     (let h = hook_step parse typed a (analysis sys)
      in \<lparr>analysis = h, page = render (sse_state.result (state h)) (page sys)\<rparr>)"

fun run :: "json_parse \<Rightarrow> (json \<Rightarrow> iteration_result) \<Rightarrow> action list \<Rightarrow> system \<Rightarrow> system" where
  "run parse typed [] sys = sys"
| "run parse typed (a # as) sys = run parse typed as (step parse typed a sys)"

section \<open>Notions used in the statements\<close>

text \<open>What the page shows of a system: the state of the hook and the state of the page.\<close>

definition observable :: "system \<Rightarrow> iteration_result sse_state \<times> page" where
  "observable sys = (state (analysis sys), page sys)"

text \<open>The actions that belong to one \<^verbatim>\<open>connectSSE\<close> call: the settlements of its promises.\<close>

fun of_connection :: "nat \<Rightarrow> action \<Rightarrow> bool" where
  "of_connection c (Settle c' x) = (c' = c)"
| "of_connection c a = False"

text \<open>
  Two invariants of the systems reached from the initial one: the stored controller is
  one of the calls made, and the component has rendered until it made no update.
\<close>

definition well_formed :: "system \<Rightarrow> bool" where
  "well_formed sys =
     ((\<forall>c. controllerRef (analysis sys) = Some c \<longrightarrow> c < length (connections (analysis sys))) \<and>
      \<not> round_is_new (sse_state.result (state (analysis sys))) (page sys))"

text \<open>
  Two instances of the hook that differ at most in the suspension point of the call \<open>c\<close>,
  whose signal is aborted in both; and two systems that differ at most in this.
\<close>

definition agree :: "nat \<Rightarrow> 'r useSSE \<Rightarrow> 'r useSSE \<Rightarrow> bool" where
  "agree c h h' =
     (state h = state h' \<and> controllerRef h = controllerRef h' \<and>
      length (connections h) = length (connections h') \<and>
      c < length (connections h) \<and>
      aborted (connections h ! c) \<and> aborted (connections h' ! c) \<and>
      (\<forall>i < length (connections h). i \<noteq> c \<longrightarrow> connections h ! i = connections h' ! i))"

definition similar :: "nat \<Rightarrow> system \<Rightarrow> system \<Rightarrow> bool" where
  "similar c s s' =
     (agree c (analysis s) (analysis s') \<and> page s = page s' \<and>
      \<not> round_is_new (sse_state.result (state (analysis s))) (page s))"

text \<open>
  A third invariant: every call other than the stored controller has its signal aborted,
  so at most one call is live. And the actions that settle a promise of one of the first
  \<open>n\<close> calls.
\<close>

definition others_aborted :: "'r useSSE \<Rightarrow> bool" where
  "others_aborted h =
     (\<forall>i < length (connections h). controllerRef h \<noteq> Some i \<longrightarrow> aborted (connections h ! i))"

definition settles_below :: "nat \<Rightarrow> action \<Rightarrow> bool" where
  "settles_below n a = (case a of Settle c x \<Rightarrow> c < n | _ \<Rightarrow> False)"

text \<open>
  A sample session used to evaluate the statements below on concrete inputs: a decoder
  that knows two payloads of the shape \<^verbatim>\<open>{ result: { iteration_number, overall_score }, is_ready }\<close>
  (the texts \<^verbatim>\<open>first\<close> and \<^verbatim>\<open>second\<close> stand for their JSON), a typed reading of a
  payload by field name, and a comparison report whose iteration indices match no
  history.
\<close>

definition demo_payload :: "real \<Rightarrow> real \<Rightarrow> bool \<Rightarrow> json" where
  "demo_payload n s r =
     JObj [(''result'', JObj [(''iteration_number'', JNum n), (''overall_score'', JNum s)]),
           (''is_ready'', JBool r)]"

definition demo_parse :: json_parse where
  "demo_parse s =
     (if s = ''first'' then Some (demo_payload 1 55 False)
      else if s = ''second'' then Some (demo_payload 1 82 True)
      else None)"

definition number_field :: "json \<Rightarrow> string \<Rightarrow> real" where
  "number_field j k = (case field j k of Some (JNum x) \<Rightarrow> x | _ \<Rightarrow> 0)"

definition demo_typed :: "json \<Rightarrow> iteration_result" where
  "demo_typed j =
     \<lparr>iteration_result.result =
        (case field j ''result'' of
           None \<Rightarrow> None
         | Some r \<Rightarrow>
             Some \<lparr>overall_score = number_field r ''overall_score'',
                   iteration_number = number_field r ''iteration_number''\<rparr>),
      iteration_result.comparison = None,
      is_ready = (field j ''is_ready'' = Some (JBool True))\<rparr>"

definition demo_report :: comparison_report where
  "demo_report =
     \<lparr>previous_iteration = 5, current_iteration = 9, previous_score = 40, current_score = 55,
      score_delta = 15, improved_dimensions = [''Completeness''], regressed_dimensions = [],
      resolved_issues = [], new_issues = []\<rparr>"

section \<open>The frame parser: lines, frames and chunks\<close>

lemma split_newline_not_Nil: "split_newline s \<noteq> []"
  by (induction s) (auto split: list.splits)

lemma split_newline_line:
  "CHR 0x0A \<notin> set l \<Longrightarrow> split_newline (l @ CHR 0x0A # rest) = l # split_newline rest"
  by (induction l) (auto split: list.splits)

lemma event_line: "startsWith (''event: '' @ e) ''event: ''"
  by (simp add: startsWith_def)

lemma data_line:
  "\<not> startsWith (''data: '' @ d) ''event: '' \<and> startsWith (''data: '' @ d) ''data: ''"
  by (simp add: startsWith_def)

lemma blank_line: "\<not> startsWith [] ''event: '' \<and> \<not> startsWith [] ''data: ''"
  by (simp add: startsWith_def)

lemma frame_lines:
  assumes "trim e \<noteq> []" and "d \<noteq> []"
  shows "process_lines parse ce cd ((''event: '' @ e) # (''data: '' @ d) # [] # lines) =
         close_frame parse (trim e) d # process_lines parse [] [] lines"
  using assms event_line [of e] data_line [of d] blank_line by simp

lemma read_chunk_frame_split:
  assumes "CHR 0x0A \<notin> set e" and "CHR 0x0A \<notin> set d"
  shows "split_newline (''event: '' @ e @ ''\<newline>'' @ ''data: '' @ d @ ''\<newline>\<newline>'' @ rest) =
         (''event: '' @ e) # (''data: '' @ d) # [] # split_newline rest"
proof -
  have 1: "CHR 0x0A \<notin> set (''event: '' @ e)" using assms by simp
  have 2: "CHR 0x0A \<notin> set (''data: '' @ d)" using assms by simp
  have 3: "split_newline
             ((''event: '' @ e) @ CHR 0x0A # ((''data: '' @ d) @ CHR 0x0A # CHR 0x0A # rest)) =
           (''event: '' @ e) # split_newline ((''data: '' @ d) @ CHR 0x0A # CHR 0x0A # rest)"
    using 1 by (rule split_newline_line)
  have 4: "split_newline ((''data: '' @ d) @ CHR 0x0A # CHR 0x0A # rest) =
           (''data: '' @ d) # split_newline (CHR 0x0A # rest)"
    using 2 by (rule split_newline_line)
  show ?thesis using 3 4 by simp
qed

lemma split_newline_lines:
  "\<forall>l \<in> set ls. CHR 0x0A \<notin> set l \<Longrightarrow>
   split_newline (concat (map (\<lambda>l. l @ ''\<newline>'') ls) @ rest) = ls @ split_newline rest"
proof (induction ls)
  case Nil
  then show ?case by simp
next
  case (Cons l ls)
  then have "split_newline (l @ CHR 0x0A # (concat (map (\<lambda>l. l @ ''\<newline>'') ls) @ rest)) =
             l # split_newline (concat (map (\<lambda>l. l @ ''\<newline>'') ls) @ rest)"
    by (simp add: split_newline_line)
  with Cons show ?case by simp
qed

lemma process_lines_append:
  "\<exists>ce' cd'. \<forall>ms. process_lines parse ce cd (ls @ ms) =
                     process_lines parse ce cd ls @ process_lines parse ce' cd' ms"
proof (induction ls arbitrary: ce cd)
  case Nil
  show ?case by (rule exI [of _ ce], rule exI [of _ cd]) simp
next
  case (Cons l ls)
  consider (event) "startsWith l ''event: ''"
    | (data) "\<not> startsWith l ''event: ''" "startsWith l ''data: ''"
    | (close) "\<not> startsWith l ''event: ''" "\<not> startsWith l ''data: ''"
        "l = [] \<and> ce \<noteq> [] \<and> cd \<noteq> []"
    | (other) "\<not> startsWith l ''event: ''" "\<not> startsWith l ''data: ''"
        "\<not> (l = [] \<and> ce \<noteq> [] \<and> cd \<noteq> [])"
    by blast
  then show ?case
  proof cases
    case event
    obtain ce' cd' where "\<forall>ms. process_lines parse (trim (drop 7 l)) cd (ls @ ms) =
        process_lines parse (trim (drop 7 l)) cd ls @ process_lines parse ce' cd' ms"
      using Cons [of "trim (drop 7 l)" cd] by blast
    with event have "\<forall>ms. process_lines parse ce cd ((l # ls) @ ms) =
        process_lines parse ce cd (l # ls) @ process_lines parse ce' cd' ms"
      by auto
    then show ?thesis by blast
  next
    case data
    obtain ce' cd' where "\<forall>ms. process_lines parse ce (drop 6 l) (ls @ ms) =
        process_lines parse ce (drop 6 l) ls @ process_lines parse ce' cd' ms"
      using Cons [of ce "drop 6 l"] by blast
    with data have "\<forall>ms. process_lines parse ce cd ((l # ls) @ ms) =
        process_lines parse ce cd (l # ls) @ process_lines parse ce' cd' ms"
      by auto
    then show ?thesis by blast
  next
    case close
    obtain ce' cd' where "\<forall>ms. process_lines parse [] [] (ls @ ms) =
        process_lines parse [] [] ls @ process_lines parse ce' cd' ms"
      using Cons [of "[]" "[]"] by blast
    with close have "\<forall>ms. process_lines parse ce cd ((l # ls) @ ms) =
        process_lines parse ce cd (l # ls) @ process_lines parse ce' cd' ms"
      by auto
    then show ?thesis by blast
  next
    case other
    obtain ce' cd' where "\<forall>ms. process_lines parse ce cd (ls @ ms) =
        process_lines parse ce cd ls @ process_lines parse ce' cd' ms"
      using Cons [of ce cd] by blast
    with other have "\<forall>ms. process_lines parse ce cd ((l # ls) @ ms) =
        process_lines parse ce cd (l # ls) @ process_lines parse ce' cd' ms"
      by auto
    then show ?thesis by blast
  qed
qed

lemma read_chunk_lines_then_frame:
  assumes whole: "buffer @ chunk =
      concat (map (\<lambda>l. l @ ''\<newline>'') ls) @
      ''event: '' @ e @ ''\<newline>'' @ ''data: '' @ d @ ''\<newline>\<newline>'' @ rest"
    and ls: "\<forall>l \<in> set ls. CHR 0x0A \<notin> set l"
    and e: "CHR 0x0A \<notin> set e" and d: "CHR 0x0A \<notin> set d"
  shows "read_chunk parse buffer chunk =
         (process_lines parse [] []
            (ls @ (''event: '' @ e) # (''data: '' @ d) # [] # butlast (split_newline rest)),
          last (split_newline rest))"
proof -
  have "split_newline (buffer @ chunk) =
        ls @ split_newline (''event: '' @ e @ ''\<newline>'' @ ''data: '' @ d @ ''\<newline>\<newline>'' @ rest)"
    unfolding whole using ls by (rule split_newline_lines)
  also have "split_newline (''event: '' @ e @ ''\<newline>'' @ ''data: '' @ d @ ''\<newline>\<newline>'' @ rest) =
        (''event: '' @ e) # (''data: '' @ d) # [] # split_newline rest"
    using read_chunk_frame_split [OF e d] .
  finally show ?thesis
    by (simp add: read_chunk_def Let_def split_newline_not_Nil butlast_append)
qed

text \<open>
  C1. Chunk-boundary independence of the frame parser: feeding the chunks one at a time
  yields the same events as feeding the whole text as one chunk, and in particular a
  frame whose \<^verbatim>\<open>event: \<close> line, \<^verbatim>\<open>data: \<close> line and blank line arrive in different chunks
  is still emitted. The code carries the unfinished last line over in \<^verbatim>\<open>buffer\<close>, but it
  declares \<^verbatim>\<open>currentEvent\<close> and \<^verbatim>\<open>currentData\<close> inside the loop body, so both are empty
  again at every read: the frame \<^verbatim>\<open>event: a\<close>, \<^verbatim>\<open>data: 1\<close>, blank line is emitted when it
  arrives in one chunk and lost when the chunk ends after its first line.
\<close>

theorem frame_split_after_event_line_is_lost:
  "connectSSE parse
     [Response 200 True, Chunk ''event: a\<newline>'', Chunk ''data: 1\<newline>\<newline>'', Done] = []
   \<and> connectSSE parse
     [Response 200 True, Chunk ''event: a\<newline>data: 1\<newline>\<newline>'', Done] =
       [OnEvent (close_frame parse ''a'' ''1'')]"
  by (simp add: connectSSE_def response_ok_def read_chunk_def startsWith_def trim_def
      is_white_space_def)

text \<open>
  What the \<^verbatim>\<open>try\<close>/\<^verbatim>\<open>catch\<close> achieves: a complete frame (an event name that is not
  empty, a data line that is not empty, then a blank line) whose payload \<^verbatim>\<open>JSON.parse\<close>
  rejects makes the line loop emit exactly one event, whose data is the wrapper
  \<^verbatim>\<open>{ raw: payload }\<close>, and go on with the lines that follow, both pending fields empty.
  This holds in whatever state the frame finds the loop, and for every read in whose text
  (the carry-over buffer followed by the chunk) the whole frame stands after complete
  lines.
\<close>

lemma malformed_frame_within_a_read:
  assumes "trim e \<noteq> []" and "d \<noteq> []" and "parse d = None"
  shows "process_lines parse ce cd ((''event: '' @ e) # (''data: '' @ d) # [] # lines) =
           \<lparr>event = trim e, data = raw_payload d\<rparr> # process_lines parse [] [] lines
         \<and> (buffer @ chunk =
              concat (map (\<lambda>l. l @ ''\<newline>'') ls) @
              ''event: '' @ e @ ''\<newline>'' @ ''data: '' @ d @ ''\<newline>\<newline>'' @ rest \<and>
            (\<forall>l \<in> set ls. CHR 0x0A \<notin> set l) \<and> CHR 0x0A \<notin> set e \<and> CHR 0x0A \<notin> set d \<longrightarrow>
            read_chunk parse buffer chunk =
              (process_lines parse [] [] ls @
               \<lparr>event = trim e, data = raw_payload d\<rparr> # fst (read_chunk parse [] rest),
               snd (read_chunk parse [] rest)))"
proof -
  have c: "close_frame parse (trim e) d = \<lparr>event = trim e, data = raw_payload d\<rparr>"
    using assms(3) by (simp add: close_frame_def)
  have l: "\<And>ce cd lines.
           process_lines parse ce cd ((''event: '' @ e) # (''data: '' @ d) # [] # lines) =
           \<lparr>event = trim e, data = raw_payload d\<rparr> # process_lines parse [] [] lines"
    using frame_lines [OF assms(1,2)] c by simp
  show ?thesis
  proof (intro conjI impI)
    show "process_lines parse ce cd ((''event: '' @ e) # (''data: '' @ d) # [] # lines) =
           \<lparr>event = trim e, data = raw_payload d\<rparr> # process_lines parse [] [] lines"
      by (rule l)
  next
    assume h: "buffer @ chunk =
              concat (map (\<lambda>l. l @ ''\<newline>'') ls) @
              ''event: '' @ e @ ''\<newline>'' @ ''data: '' @ d @ ''\<newline>\<newline>'' @ rest \<and>
            (\<forall>l \<in> set ls. CHR 0x0A \<notin> set l) \<and> CHR 0x0A \<notin> set e \<and> CHR 0x0A \<notin> set d"
    obtain ce' cd' where after: "\<And>ms. process_lines parse [] [] (ls @ ms) =
        process_lines parse [] [] ls @ process_lines parse ce' cd' ms"
      using process_lines_append [of parse "[]" "[]" ls] by blast
    have whole: "read_chunk parse buffer chunk =
         (process_lines parse [] []
            (ls @ (''event: '' @ e) # (''data: '' @ d) # [] # butlast (split_newline rest)),
          last (split_newline rest))"
      using h by (intro read_chunk_lines_then_frame) simp_all
    have events: "process_lines parse [] []
            (ls @ (''event: '' @ e) # (''data: '' @ d) # [] # butlast (split_newline rest)) =
          process_lines parse [] [] ls @
          \<lparr>event = trim e, data = raw_payload d\<rparr> #
          process_lines parse [] [] (butlast (split_newline rest))"
      by (simp only: after l)
    have alone: "read_chunk parse [] rest =
          (process_lines parse [] [] (butlast (split_newline rest)), last (split_newline rest))"
      by (simp add: read_chunk_def Let_def)
    show "read_chunk parse buffer chunk =
              (process_lines parse [] [] ls @
               \<lparr>event = trim e, data = raw_payload d\<rparr> # fst (read_chunk parse [] rest),
               snd (read_chunk parse [] rest))"
      unfolding whole events alone by simp
  qed
qed

text \<open>
  The lemma at the payload \<^verbatim>\<open>{bad\<close>, with a decoder that accepts \<^verbatim>\<open>{}\<close> only, in a read
  whose buffer holds the start of a comment line: the malformed frame gives its raw
  wrapper and the well-formed frame after it is decoded.
\<close>

lemma malformed_frame_within_a_read_example:
  "trim ''progress'' \<noteq> [] \<and> ''{bad'' \<noteq> [] \<and>
   (\<lambda>s. if s = ''{}'' then Some (JObj []) else None) ''{bad'' = None \<and>
   '': keep'' @ ''-alive\<newline>event: progress\<newline>data: {bad\<newline>\<newline>event: complete\<newline>data: {}\<newline>\<newline>'' =
     concat (map (\<lambda>l. l @ ''\<newline>'') ['': keep-alive'']) @
     ''event: '' @ ''progress'' @ ''\<newline>'' @ ''data: '' @ ''{bad'' @ ''\<newline>\<newline>'' @
     ''event: complete\<newline>data: {}\<newline>\<newline>'' \<and>
   CHR 0x0A \<notin> set '': keep-alive'' \<and>
   CHR 0x0A \<notin> set ''progress'' \<and> CHR 0x0A \<notin> set ''{bad'' \<and>
   read_chunk (\<lambda>s. if s = ''{}'' then Some (JObj []) else None) '': keep''
     ''-alive\<newline>event: progress\<newline>data: {bad\<newline>\<newline>event: complete\<newline>data: {}\<newline>\<newline>'' =
     ([\<lparr>event = ''progress'', data = JObj [(''raw'', JStr ''{bad'')]\<rparr>,
       \<lparr>event = ''complete'', data = JObj []\<rparr>], [])"
proof -
  let ?parse = "\<lambda>s. if s = ''{}'' then Some (JObj []) else None"
  have t: "trim ''progress'' = ''progress''"
    by (simp add: trim_def is_white_space_def)
  have rest: "read_chunk ?parse [] ''event: complete\<newline>data: {}\<newline>\<newline>'' =
              ([\<lparr>event = ''complete'', data = JObj []\<rparr>], [])"
    by (simp add: read_chunk_def startsWith_def trim_def is_white_space_def close_frame_def)
  have before: "process_lines ?parse [] [] ['': keep-alive''] = []"
    by (simp add: startsWith_def)
  show ?thesis
    using malformed_frame_within_a_read [where e = "''progress''" and d = "''{bad''"
        and parse = ?parse and ce = "[]" and cd = "[]" and lines = "[]"
        and buffer = "'': keep''"
        and chunk = "''-alive\<newline>event: progress\<newline>data: {bad\<newline>\<newline>event: complete\<newline>data: {}\<newline>\<newline>''"
        and ls = "['': keep-alive'']"
        and rest = "''event: complete\<newline>data: {}\<newline>\<newline>''"]
    by (simp add: t rest before raw_payload_def)
qed

text \<open>
  C6. Malformed-frame recovery: for every complete frame whose payload fails to decode,
  the parser emits exactly one event with the wrapper \<^verbatim>\<open>{ raw: payload }\<close>, not zero
  events and not an exception, and continues with the frames that follow. The code does
  so only for a frame whose lines arrive in one read. \<^verbatim>\<open>currentEvent\<close> and
  \<^verbatim>\<open>currentData\<close> are declared inside the loop body, so they are empty again at every
  read, and a malformed frame whose lines are split over two reads yields no event at
  all, whatever the decoder: this is the defect of C1. The same frame in one read yields
  its one raw wrapper.
\<close>

theorem malformed_frame_split_is_lost:
  "connectSSE parse
     [Response 200 True, Chunk ''event: progress\<newline>'', Chunk ''data: {bad\<newline>\<newline>'', Done] = []
   \<and> connectSSE parse
     [Response 200 True, Chunk ''event: progress\<newline>data: {bad\<newline>'', Chunk ''\<newline>'', Done] = []
   \<and> connectSSE (\<lambda>s. None)
     [Response 200 True, Chunk ''event: progress\<newline>data: {bad\<newline>\<newline>'', Done] =
       [OnEvent \<lparr>event = ''progress'', data = JObj [(''raw'', JStr ''{bad'')]\<rparr>]"
  by (simp add: connectSSE_def response_ok_def read_chunk_def startsWith_def trim_def
      is_white_space_def close_frame_def raw_payload_def)

section \<open>The promise chain: responses that are not ok\<close>

lemma connection_run_Finished: "connection_run parse Finished xs = []"
  by (induction xs) auto

lemma catch_new_Error: "catch_handler (new_Error m) = [OnError (new_Error m)]"
  by (simp add: catch_handler_def new_Error_def)

lemma connection_run_ReadingText:
  "connection_run parse (ReadingText status) xs = [] \<or>
   (\<exists>err. connection_run parse (ReadingText status) xs = [OnError err])"
proof (induction xs)
  case Nil
  then show ?case by simp
next
  case (Cons x xs)
  then show ?case
    by (cases x) (auto simp: connection_run_Finished catch_handler_def)
qed

text \<open>The digits printed for a status denote the status.\<close>

lemma decimal_value: "fold (\<lambda>c a. 10 * a + (of_char c - 48)) (decimal n) 0 = (n::nat)"
proof (induction n rule: decimal.induct)
  case (1 n)
  show ?case
  proof (cases "n < 10")
    case True
    then show ?thesis by (subst decimal.simps) simp
  next
    case False
    have "n mod 10 < 10" by simp
    then have m: "(48 + n mod 10) mod 256 = 48 + n mod 10" by simp
    from False 1 show ?thesis
      by (subst decimal.simps) (simp add: m)
  qed
qed

text \<open>
  C7. A response whose status is not a success status is a terminal error: the client
  reads the whole body with \<^verbatim>\<open>response.text()\<close> and calls the error callback exactly once,
  with the message \<^verbatim>\<open>HTTP status: body\<close>, and it never calls the event callback, whatever
  the body holds and whatever settles afterwards. Whether or not the read of the body
  succeeds, the calls made are none or one error, never an event.
\<close>

theorem non_ok_response_is_terminal_error:
  assumes "\<not> response_ok status"
  shows "connectSSE parse (Response status has_body # Text body # xs) =
           [OnError (new_Error (''HTTP '' @ decimal status @ '': '' @ body))]
         \<and> (connectSSE parse (Response status has_body # ys) = [] \<or>
            (\<exists>err. connectSSE parse (Response status has_body # ys) = [OnError err]))"
  using assms connection_run_ReadingText [of parse status ys]
  by (simp add: connectSSE_def connection_run_Finished catch_new_Error)

text \<open>
  The theorem at status 503 with a body that looks like a frame: the body is the error
  message and no event is made of it.
\<close>

theorem non_ok_response_is_terminal_error_witness:
  "\<not> response_ok 503 \<and>
   connectSSE (\<lambda>s. None)
     [Response 503 True, Text ''event: complete\<newline>data: {}\<newline>\<newline>'', Done] =
     [OnError (JsError ''Error'' ''HTTP 503: event: complete\<newline>data: {}\<newline>\<newline>'')]"
proof -
  have h: "\<not> response_ok 503" by (simp add: response_ok_def)
  have d: "decimal 503 = ''503''" by code_simp
  show ?thesis
    using h d non_ok_response_is_terminal_error [OF h, of "\<lambda>s. None" True
        "''event: complete\<newline>data: {}\<newline>\<newline>''" "[Done]" "[]"]
    by (simp add: new_Error_def)
qed

section \<open>The hook: cancelling a round\<close>

lemma length_abort_current [simp]: "length (abort_current h) = length (connections h)"
  by (simp add: abort_current_def split: option.splits)

text \<open>
  C10. The effect of \<^verbatim>\<open>cancel\<close> on the stream state: \<^verbatim>\<open>loading\<close> becomes false and the
  progress message the empty string; \<^verbatim>\<open>result\<close>, \<^verbatim>\<open>progressDetail\<close> and \<^verbatim>\<open>error\<close>
  keep the values they had, so no result is restored or made up. The stored controller
  stays the same.
\<close>

theorem cancel_frame:
  "loading (state (cancel h)) = False \<and> progress (state (cancel h)) = [] \<and>
   sse_state.result (state (cancel h)) = sse_state.result (state h) \<and>
   progressDetail (state (cancel h)) = progressDetail (state h) \<and>
   error (state (cancel h)) = error (state h) \<and>
   state (cancel h) = (state h)\<lparr>loading := False, progress := []\<rparr> \<and>
   controllerRef (cancel h) = controllerRef h"
  by (simp add: cancel_def)

text \<open>C10 at a round in flight that has shown one progress message.\<close>

theorem cancel_frame_witness:
  "state (cancel \<lparr>state = \<lparr>loading = True, progress = ''step1'',
                            progressDetail = Some (JObj [(''message'', JStr ''step1'')]),
                            sse_state.result = None :: iteration_result option,
                            error = Some ''earlier''\<rparr>,
                 controllerRef = Some 0,
                 connections = [\<lparr>aborted = False, phase = Reading []\<rparr>]\<rparr>) =
     \<lparr>loading = False, progress = [],
      progressDetail = Some (JObj [(''message'', JStr ''step1'')]),
      sse_state.result = None, error = Some ''earlier''\<rparr>"
  using cancel_frame [of "\<lparr>state = \<lparr>loading = True, progress = ''step1'',
                            progressDetail = Some (JObj [(''message'', JStr ''step1'')]),
                            sse_state.result = None :: iteration_result option,
                            error = Some ''earlier''\<rparr>,
                 controllerRef = Some 0,
                 connections = [\<lparr>aborted = False, phase = Reading []\<rparr>]\<rparr>"]
  by simp

section \<open>The page: committing a completed round\<close>

lemma render_settled: "\<not> round_is_new res p \<Longrightarrow> render res p = p"
  by (subst render.simps) simp

lemma render_again: "round_is_new res p \<Longrightarrow> render res p = render res (render_pass res p)"
  by (subst render.simps) simp

lemma render_fixpoint: "\<not> round_is_new res (render res p)"
  by (induction res p rule: render.induct) (metis render_settled render_again)

lemma render_None: "render None p = p"
  by (simp add: render_settled round_is_new_def)

lemma round_is_new_result:
  "round_is_new (Some r) p \<Longrightarrow> \<exists>a. iteration_result.result r = Some a"
  by (cases "iteration_result.result r") (auto simp: round_is_new_def declared_iteration_def)

lemma render_pass_new:
  "round_is_new (Some r) p \<Longrightarrow> iteration_result.result r = Some a \<Longrightarrow>
   render_pass (Some r) p =
     p\<lparr>history := history p @ [\<lparr>iteration = iteration_number a, score = overall_score a\<rparr>],
       isReady := is_ready r, comparison := iteration_result.comparison r\<rparr>"
  by (simp add: render_pass_def commit_round_def)

lemma render_isReady:
  "round_is_new (Some r) p \<Longrightarrow> isReady (render (Some r) p) = is_ready r"
proof (induction "Some r" p rule: render.induct)
  case (1 p)
  from 1(2) obtain a where a: "iteration_result.result r = Some a"
    using round_is_new_result by blast
  show ?case
  proof (cases "round_is_new (Some r) (render_pass (Some r) p)")
    case True
    with 1 show ?thesis by (simp add: render_again)
  next
    case False
    then have "render (Some r) p = render_pass (Some r) p"
      using 1(2) by (simp add: render_again render_settled)
    then show ?thesis using 1(2) a by (simp add: render_pass_new)
  qed
qed

lemma render_comparison:
  "round_is_new (Some r) p \<Longrightarrow> comparison (render (Some r) p) = iteration_result.comparison r"
proof (induction "Some r" p rule: render.induct)
  case (1 p)
  from 1(2) obtain a where a: "iteration_result.result r = Some a"
    using round_is_new_result by blast
  show ?case
  proof (cases "round_is_new (Some r) (render_pass (Some r) p)")
    case True
    with 1 show ?thesis by (simp add: render_again)
  next
    case False
    then have "render (Some r) p = render_pass (Some r) p"
      using 1(2) by (simp add: render_again render_settled)
    then show ?thesis using 1(2) a by (simp add: render_pass_new)
  qed
qed

lemma render_threshold: "threshold (render res p) = threshold p"
proof (induction res p rule: render.induct)
  case (1 res p)
  show ?case
  proof (cases "round_is_new res p")
    case True
    then obtain r where r: "res = Some r" by (auto simp: round_is_new_def split: option.splits)
    with True obtain a where "iteration_result.result r = Some a"
      using round_is_new_result by blast
    with 1 True r show ?thesis by (simp add: render_again render_pass_new)
  next
    case False
    then show ?thesis by (simp add: render_settled)
  qed
qed

lemma render_next_round:
  assumes "iteration_result.result r = Some a"
    and "iteration_number a = real (length (history p)) + 1"
  shows "render (Some r) p = render_pass (Some r) p"
    and "history (render (Some r) p) =
         history p @ [\<lparr>iteration = iteration_number a, score = overall_score a\<rparr>]"
proof -
  have new: "round_is_new (Some r) p"
    using assms by (simp add: round_is_new_def declared_iteration_def)
  have pass: "render_pass (Some r) p =
     p\<lparr>history := history p @ [\<lparr>iteration = iteration_number a, score = overall_score a\<rparr>],
       isReady := is_ready r, comparison := iteration_result.comparison r\<rparr>"
    using new assms(1) by (rule render_pass_new)
  have "\<not> round_is_new (Some r) (render_pass (Some r) p)"
    using assms by (simp add: pass round_is_new_def declared_iteration_def)
  then show 1: "render (Some r) p = render_pass (Some r) p"
    using new by (simp add: render_again render_settled)
  show "history (render (Some r) p) =
         history p @ [\<lparr>iteration = iteration_number a, score = overall_score a\<rparr>]"
    by (simp add: 1 pass)
qed

text \<open>
  C2, as amended. The guard on a completed round is a lower bound, not an equality: a
  result whose declared iteration number is at most \<^verbatim>\<open>history.length\<close>, or whose
  \<^verbatim>\<open>result\<close> is absent, leaves the page as it is; a result whose number is above
  \<^verbatim>\<open>history.length\<close> is appended with its number and score; and when the number is
  exactly \<^verbatim>\<open>history.length + 1\<close> the renders that follow append exactly that one entry.
\<close>

theorem iteration_guard_is_a_lower_bound:
  "(iteration_result.result r = None \<longrightarrow> render (Some r) p = p) \<and>
   (\<forall>a. iteration_result.result r = Some a \<longrightarrow>
      (iteration_number a \<le> real (length (history p)) \<longrightarrow>
         render_pass (Some r) p = p \<and> render (Some r) p = p) \<and>
      (real (length (history p)) < iteration_number a \<longrightarrow>
         history (render_pass (Some r) p) =
           history p @ [\<lparr>iteration = iteration_number a, score = overall_score a\<rparr>]) \<and>
      (iteration_number a = real (length (history p)) + 1 \<longrightarrow>
         history (render (Some r) p) =
           history p @ [\<lparr>iteration = iteration_number a, score = overall_score a\<rparr>]))"
proof (intro conjI allI impI)
  assume "iteration_result.result r = None"
  then have "\<not> round_is_new (Some r) p"
    by (simp add: round_is_new_def declared_iteration_def)
  then show "render (Some r) p = p" by (rule render_settled)
next
  fix a assume a: "iteration_result.result r = Some a"
    and le: "iteration_number a \<le> real (length (history p))"
  then have old: "\<not> round_is_new (Some r) p"
    by (simp add: round_is_new_def declared_iteration_def)
  then show "render_pass (Some r) p = p" by (simp add: render_pass_def)
  from old show "render (Some r) p = p" by (rule render_settled)
next
  fix a assume a: "iteration_result.result r = Some a"
    and lt: "real (length (history p)) < iteration_number a"
  then have "round_is_new (Some r) p"
    by (simp add: round_is_new_def declared_iteration_def)
  then show "history (render_pass (Some r) p) =
           history p @ [\<lparr>iteration = iteration_number a, score = overall_score a\<rparr>]"
    using a by (simp add: render_pass_new)
next
  fix a assume a: "iteration_result.result r = Some a"
    and eq: "iteration_number a = real (length (history p)) + 1"
  then show "history (render (Some r) p) =
           history p @ [\<lparr>iteration = iteration_number a, score = overall_score a\<rparr>]"
    by (rule render_next_round(2))
qed

text \<open>
  C2 as it is stated fails: with one entry in the history, a result that declares
  iteration 3 (which is not \<^verbatim>\<open>history.length + 1\<close>) is not rejected. The first render
  appends it, and the history is not left at length 1.
\<close>

theorem iteration_guard_counterexample:
  "iteration_number \<lparr>overall_score = 70, iteration_number = 3\<rparr> \<noteq>
     real (length (history (initial_page\<lparr>history := [\<lparr>iteration = 1, score = 55\<rparr>]\<rparr>))) + 1
   \<and> history (render_pass
        (Some \<lparr>iteration_result.result = Some \<lparr>overall_score = 70, iteration_number = 3\<rparr>,
               iteration_result.comparison = None, is_ready = False\<rparr>)
        (initial_page\<lparr>history := [\<lparr>iteration = 1, score = 55\<rparr>]\<rparr>)) =
     [\<lparr>iteration = 1, score = 55\<rparr>, \<lparr>iteration = 3, score = 70\<rparr>]
   \<and> history (render
        (Some \<lparr>iteration_result.result = Some \<lparr>overall_score = 70, iteration_number = 3\<rparr>,
               iteration_result.comparison = None, is_ready = False\<rparr>)
        (initial_page\<lparr>history := [\<lparr>iteration = 1, score = 55\<rparr>]\<rparr>)) =
     [\<lparr>iteration = 1, score = 55\<rparr>, \<lparr>iteration = 3, score = 70\<rparr>, \<lparr>iteration = 3, score = 70\<rparr>]"
  by (simp add: render.simps round_is_new_def declared_iteration_def render_pass_def
      commit_round_def initial_page_def)

text \<open>
  C2 as amended, at a history of one entry: the result of iteration 2 is appended once,
  and the result of iteration 1, seen again, changes nothing.
\<close>

theorem iteration_guard_is_a_lower_bound_witness:
  "history (render
      (Some \<lparr>iteration_result.result = Some \<lparr>overall_score = 78, iteration_number = 2\<rparr>,
             iteration_result.comparison = None, is_ready = False\<rparr>)
      (initial_page\<lparr>history := [\<lparr>iteration = 1, score = 55\<rparr>]\<rparr>)) =
     [\<lparr>iteration = 1, score = 55\<rparr>, \<lparr>iteration = 2, score = 78\<rparr>]
   \<and> render
      (Some \<lparr>iteration_result.result = Some \<lparr>overall_score = 55, iteration_number = 1\<rparr>,
             iteration_result.comparison = None, is_ready = False\<rparr>)
      (initial_page\<lparr>history := [\<lparr>iteration = 1, score = 55\<rparr>]\<rparr>) =
     initial_page\<lparr>history := [\<lparr>iteration = 1, score = 55\<rparr>]\<rparr>"
proof -
  let ?p = "initial_page\<lparr>history := [\<lparr>iteration = 1, score = 55\<rparr>]\<rparr>"
  note two = iteration_guard_is_a_lower_bound
      [where r = "\<lparr>iteration_result.result = Some \<lparr>overall_score = 78, iteration_number = 2\<rparr>,
                   iteration_result.comparison = None, is_ready = False\<rparr>" and p = ?p,
       THEN conjunct2, rule_format, of "\<lparr>overall_score = 78, iteration_number = 2\<rparr>"]
  note one = iteration_guard_is_a_lower_bound
      [where r = "\<lparr>iteration_result.result = Some \<lparr>overall_score = 55, iteration_number = 1\<rparr>,
                   iteration_result.comparison = None, is_ready = False\<rparr>" and p = ?p,
       THEN conjunct2, rule_format, of "\<lparr>overall_score = 55, iteration_number = 1\<rparr>"]
  show ?thesis
    using two one by (simp add: initial_page_def)
qed

text \<open>
  C4, as amended. After a round that the page commits, \<^verbatim>\<open>isReady\<close> is the \<^verbatim>\<open>is_ready\<close>
  flag of the round's payload; a result that is not committed leaves \<^verbatim>\<open>isReady\<close> as it
  was. The page never compares the score with its threshold, which no render changes:
  \<^verbatim>\<open>isReady\<close> is equivalent to meeting the threshold exactly when the service set the
  flag so.
\<close>

theorem isReady_is_the_payload_flag:
  "(round_is_new (Some r) p \<longrightarrow>
      isReady (render_pass (Some r) p) = is_ready r \<and> isReady (render (Some r) p) = is_ready r)
   \<and> (\<not> round_is_new res p \<longrightarrow> isReady (render res p) = isReady p)
   \<and> threshold (render res p) = threshold p
   \<and> (\<forall>a. round_is_new (Some r) p \<and> iteration_result.result r = Some a \<and>
          is_ready r = (threshold p \<le> overall_score a) \<longrightarrow>
          isReady (render (Some r) p) = (threshold p \<le> overall_score a))"
proof (intro conjI allI impI)
  assume new: "round_is_new (Some r) p"
  then obtain a where "iteration_result.result r = Some a"
    using round_is_new_result by blast
  with new show "isReady (render_pass (Some r) p) = is_ready r"
    by (simp add: render_pass_new)
  from new show "isReady (render (Some r) p) = is_ready r"
    by (rule render_isReady)
next
  assume "\<not> round_is_new res p"
  then show "isReady (render res p) = isReady p" by (simp add: render_settled)
next
  show "threshold (render res p) = threshold p" by (rule render_threshold)
next
  fix a
  assume "round_is_new (Some r) p \<and> iteration_result.result r = Some a \<and>
          is_ready r = (threshold p \<le> overall_score a)"
  then show "isReady (render (Some r) p) = (threshold p \<le> overall_score a)"
    by (simp add: render_isReady)
qed

text \<open>
  C4 as it is stated fails: against the threshold 80, a first round with score 55 whose
  payload says \<^verbatim>\<open>is_ready: true\<close> leaves \<^verbatim>\<open>isReady\<close> true, and one with score 82 whose
  payload says \<^verbatim>\<open>is_ready: false\<close> leaves it false.
\<close>

theorem isReady_counterexample:
  "isReady (render
      (Some \<lparr>iteration_result.result = Some \<lparr>overall_score = 55, iteration_number = 1\<rparr>,
             iteration_result.comparison = None, is_ready = True\<rparr>)
      initial_page)
   \<and> \<not> threshold initial_page \<le> overall_score \<lparr>overall_score = 55, iteration_number = 1\<rparr>
   \<and> \<not> isReady (render
      (Some \<lparr>iteration_result.result = Some \<lparr>overall_score = 82, iteration_number = 1\<rparr>,
             iteration_result.comparison = None, is_ready = False\<rparr>)
      initial_page)
   \<and> threshold initial_page \<le> overall_score \<lparr>overall_score = 82, iteration_number = 1\<rparr>"
  by (simp add: render.simps round_is_new_def declared_iteration_def render_pass_def
      commit_round_def initial_page_def)

text \<open>
  C4 as amended, at the third round of the scenario (scores 55 and 78 in the history, then
  82 with the flag set), and at a page with no result.
\<close>

theorem isReady_is_the_payload_flag_witness:
  "round_is_new
      (Some \<lparr>iteration_result.result = Some \<lparr>overall_score = 82, iteration_number = 3\<rparr>,
             iteration_result.comparison = None, is_ready = True\<rparr>)
      (initial_page\<lparr>history := [\<lparr>iteration = 1, score = 55\<rparr>, \<lparr>iteration = 2, score = 78\<rparr>]\<rparr>)
   \<and> isReady (render
      (Some \<lparr>iteration_result.result = Some \<lparr>overall_score = 82, iteration_number = 3\<rparr>,
             iteration_result.comparison = None, is_ready = True\<rparr>)
      (initial_page\<lparr>history := [\<lparr>iteration = 1, score = 55\<rparr>, \<lparr>iteration = 2, score = 78\<rparr>]\<rparr>))
   \<and> \<not> round_is_new None initial_page
   \<and> \<not> isReady (render None initial_page)"
proof -
  let ?r = "\<lparr>iteration_result.result = Some \<lparr>overall_score = 82, iteration_number = 3\<rparr>,
             iteration_result.comparison = None, is_ready = True\<rparr>"
  let ?p = "initial_page\<lparr>history := [\<lparr>iteration = 1, score = 55\<rparr>, \<lparr>iteration = 2, score = 78\<rparr>]\<rparr>"
  have new: "round_is_new (Some ?r) ?p"
    by (simp add: round_is_new_def declared_iteration_def initial_page_def)
  have old: "\<not> round_is_new None initial_page"
    by (simp add: round_is_new_def)
  note inst = isReady_is_the_payload_flag [where r = ?r and p = ?p]
  note inst' = isReady_is_the_payload_flag [where res = None and p = initial_page]
  show ?thesis
    using new old inst [THEN conjunct1] inst' [THEN conjunct2, THEN conjunct1]
    by (simp add: initial_page_def)
qed

text \<open>
  C8, as amended. After a round that the page commits, the page's comparison is the
  comparison of the payload, or \<^verbatim>\<open>null\<close> when the payload has none; its
  \<^verbatim>\<open>previous_iteration\<close> and \<^verbatim>\<open>current_iteration\<close> are not read. The round's entry, with
  its number and score, is appended in the same render. A result that is not committed
  leaves the comparison and the history as they were.
\<close>

theorem comparison_is_attached_unchecked:
  "(round_is_new (Some r) p \<longrightarrow>
      comparison (render_pass (Some r) p) = iteration_result.comparison r \<and>
      comparison (render (Some r) p) = iteration_result.comparison r \<and>
      (\<exists>a. iteration_result.result r = Some a \<and>
           history (render_pass (Some r) p) =
             history p @ [\<lparr>iteration = iteration_number a, score = overall_score a\<rparr>]))
   \<and> (\<not> round_is_new res p \<longrightarrow>
        comparison (render res p) = comparison p \<and> history (render res p) = history p)"
proof (intro conjI allI impI)
  assume new: "round_is_new (Some r) p"
  then obtain a where a: "iteration_result.result r = Some a"
    using round_is_new_result by blast
  with new show "comparison (render_pass (Some r) p) = iteration_result.comparison r"
    by (simp add: render_pass_new)
  from new show "comparison (render (Some r) p) = iteration_result.comparison r"
    by (rule render_comparison)
  from new a show "\<exists>a. iteration_result.result r = Some a \<and>
           history (render_pass (Some r) p) =
             history p @ [\<lparr>iteration = iteration_number a, score = overall_score a\<rparr>]"
    by (simp add: render_pass_new)
next
  assume old: "\<not> round_is_new res p"
  then show "comparison (render res p) = comparison p" by (simp add: render_settled)
  from old show "history (render res p) = history p" by (simp add: render_settled)
qed

text \<open>
  C8 as it is stated fails: a first round whose report names the iterations 5 and 9 is
  committed with that report attached, although the new round's index is 1.
\<close>

theorem comparison_counterexample:
  "comparison (render
      (Some \<lparr>iteration_result.result = Some \<lparr>overall_score = 55, iteration_number = 1\<rparr>,
             iteration_result.comparison = Some demo_report, is_ready = False\<rparr>)
      initial_page) = Some demo_report
   \<and> history (render
      (Some \<lparr>iteration_result.result = Some \<lparr>overall_score = 55, iteration_number = 1\<rparr>,
             iteration_result.comparison = Some demo_report, is_ready = False\<rparr>)
      initial_page) = [\<lparr>iteration = 1, score = 55\<rparr>]
   \<and> current_iteration demo_report \<noteq> 1
   \<and> previous_iteration demo_report \<noteq> 0"
  by (simp add: render.simps round_is_new_def declared_iteration_def render_pass_def
      commit_round_def initial_page_def demo_report_def)

text \<open>C8 as amended, at the same round, and at a page with no result.\<close>

theorem comparison_is_attached_unchecked_witness:
  "round_is_new
      (Some \<lparr>iteration_result.result = Some \<lparr>overall_score = 55, iteration_number = 1\<rparr>,
             iteration_result.comparison = Some demo_report, is_ready = False\<rparr>)
      initial_page
   \<and> comparison (render
      (Some \<lparr>iteration_result.result = Some \<lparr>overall_score = 55, iteration_number = 1\<rparr>,
             iteration_result.comparison = Some demo_report, is_ready = False\<rparr>)
      initial_page) = Some demo_report
   \<and> \<not> round_is_new None (initial_page\<lparr>comparison := Some demo_report\<rparr>)
   \<and> comparison (render None (initial_page\<lparr>comparison := Some demo_report\<rparr>)) = Some demo_report"
proof -
  let ?r = "\<lparr>iteration_result.result = Some \<lparr>overall_score = 55, iteration_number = 1\<rparr>,
             iteration_result.comparison = Some demo_report, is_ready = False\<rparr>"
  have new: "round_is_new (Some ?r) initial_page"
    by (simp add: round_is_new_def declared_iteration_def initial_page_def)
  have old: "\<not> round_is_new None (initial_page\<lparr>comparison := Some demo_report\<rparr>)"
    by (simp add: round_is_new_def)
  note inst = comparison_is_attached_unchecked [where r = ?r and p = initial_page]
  note inst' = comparison_is_attached_unchecked
      [where res = None and p = "initial_page\<lparr>comparison := Some demo_report\<rparr>"]
  show ?thesis
    using new old inst [THEN conjunct1] inst' [THEN conjunct2]
    by simp
qed

section \<open>The system: invariants\<close>

lemma well_formed_initial: "well_formed initial_system"
  by (simp add: well_formed_def initial_system_def initial_useSSE_def initial_state_def
      round_is_new_def)

lemma controllerRef_hook_step:
  "(\<forall>c. controllerRef h = Some c \<longrightarrow> c < length (connections h)) \<Longrightarrow>
   controllerRef (hook_step parse typed a h) = Some c \<Longrightarrow>
   c < length (connections (hook_step parse typed a h))"
  by (cases a) (auto simp: start_def cancel_def settle_def Let_def split: if_splits)

lemma well_formed_step: "well_formed sys \<Longrightarrow> well_formed (step parse typed a sys)"
  using controllerRef_hook_step [of "analysis sys" parse typed a]
  by (auto simp: well_formed_def step_def Let_def render_fixpoint)

lemma well_formed_run: "well_formed sys \<Longrightarrow> well_formed (run parse typed as sys)"
  by (induction as arbitrary: sys) (auto simp: well_formed_step)

lemma aborted_settlement:
  "aborted conn \<Longrightarrow> settlement_callbacks parse conn x = ([], Finished)"
  by (cases "phase conn")
     (simp_all add: settlement_callbacks_def catch_handler_def abort_error_def)

lemma settle_aborted:
  assumes "c < length (connections h)" and "aborted (connections h ! c)"
  shows "settle parse ex c x h =
         h\<lparr>connections := (connections h)[c := (connections h ! c)\<lparr>phase := Finished\<rparr>]\<rparr>"
  using assms by (simp add: settle_def Let_def aborted_settlement)

lemma nth_abort:
  "c < length xs \<Longrightarrow> aborted (xs ! c) \<Longrightarrow> aborted (xs[i := (xs ! i)\<lparr>aborted := True\<rparr>] ! c)"
  by (cases "i < length xs") (auto simp: nth_list_update)

lemma aborted_hook_step:
  assumes "c < length (connections h)" and "aborted (connections h ! c)"
  shows "c < length (connections (hook_step parse typed a h)) \<and>
         aborted (connections (hook_step parse typed a h) ! c)"
proof (cases a)
  case RunAnalysis
  with assms show ?thesis
    by (auto simp: start_def Let_def abort_current_def nth_append nth_abort
        split: option.splits)
next
  case Cancel
  with assms show ?thesis
    by (auto simp: cancel_def abort_current_def nth_abort split: option.splits)
next
  case (Settle c' x)
  with assms show ?thesis
    by (auto simp: settle_def Let_def nth_list_update)
qed

lemma aborted_run:
  assumes "c < length (connections (analysis sys))"
    and "aborted (connections (analysis sys) ! c)"
  shows "c < length (connections (analysis (run parse typed as sys))) \<and>
         aborted (connections (analysis (run parse typed as sys)) ! c)"
  using assms
proof (induction as arbitrary: sys)
  case Nil
  then show ?case by simp
next
  case (Cons a as)
  have "c < length (connections (analysis (step parse typed a sys))) \<and>
        aborted (connections (analysis (step parse typed a sys)) ! c)"
    using aborted_hook_step [OF Cons.prems, of parse typed a] by (simp add: step_def Let_def)
  then show ?case using Cons.IH by simp
qed

lemma aborted_abort_current:
  "i < length (connections h) \<Longrightarrow> aborted (connections h ! i) \<or> controllerRef h = Some i \<Longrightarrow>
   aborted (abort_current h ! i)"
  by (cases "controllerRef h") (auto simp: abort_current_def nth_abort)

lemma others_aborted_start:
  assumes "others_aborted h" and "i < length (connections h)"
  shows "aborted (connections (start h) ! i)"
proof -
  have "aborted (connections h ! i) \<or> controllerRef h = Some i"
    using assms by (auto simp: others_aborted_def)
  with assms(2) have "aborted (abort_current h ! i)" by (rule aborted_abort_current)
  with assms(2) show ?thesis by (simp add: start_def Let_def nth_append)
qed

lemma others_aborted_hook_step:
  assumes "others_aborted h"
  shows "others_aborted (hook_step parse typed a h)"
proof (cases a)
  case RunAnalysis
  have "\<And>i. i < length (connections h) \<Longrightarrow> aborted (connections (start h) ! i)"
    using assms by (rule others_aborted_start)
  then show ?thesis
    using RunAnalysis
    by (auto simp: others_aborted_def less_Suc_eq start_def Let_def)
next
  case Cancel
  show ?thesis
    unfolding Cancel others_aborted_def
  proof (intro allI impI)
    fix i assume i: "i < length (connections (hook_step parse typed Cancel h))"
      and ne: "controllerRef (hook_step parse typed Cancel h) \<noteq> Some i"
    from i have i': "i < length (connections h)" by (simp add: cancel_def)
    from ne have "controllerRef h \<noteq> Some i" by (simp add: cancel_def)
    with assms i' have "aborted (connections h ! i)" by (simp add: others_aborted_def)
    with i' have "aborted (abort_current h ! i)" by (simp add: aborted_abort_current)
    then show "aborted (connections (hook_step parse typed Cancel h) ! i)"
      by (simp add: cancel_def)
  qed
next
  case (Settle c x)
  with assms show ?thesis
    by (auto simp: others_aborted_def settle_def Let_def nth_list_update)
qed

lemma others_aborted_run:
  "others_aborted (analysis sys) \<Longrightarrow> others_aborted (analysis (run parse typed as sys))"
proof (induction as arbitrary: sys)
  case Nil
  then show ?case by simp
next
  case (Cons a as)
  have "others_aborted (analysis (step parse typed a sys))"
    using Cons.prems by (simp add: step_def Let_def others_aborted_hook_step)
  then show ?case using Cons.IH by simp
qed

lemma others_aborted_reached:
  "others_aborted (analysis (run parse typed pre initial_system))"
  by (rule others_aborted_run)
     (simp add: others_aborted_def initial_system_def initial_useSSE_def)

lemma settle_all_aborted:
  assumes "\<forall>i < n. i < length (connections h) \<and> aborted (connections h ! i)" and "c < n"
  shows "state (settle parse ex c x h) = state h"
    and "\<forall>i < n. i < length (connections (settle parse ex c x h)) \<and>
                 aborted (connections (settle parse ex c x h) ! i)"
proof -
  from assms have c: "c < length (connections h)" "aborted (connections h ! c)" by auto
  show "state (settle parse ex c x h) = state h"
    by (simp add: settle_aborted [OF c])
  show "\<forall>i < n. i < length (connections (settle parse ex c x h)) \<and>
                 aborted (connections (settle parse ex c x h) ! i)"
    using assms(1) c by (auto simp: settle_aborted [OF c] nth_list_update)
qed

lemma run_settles_below:
  assumes "\<forall>i < n. i < length (connections (analysis s)) \<and> aborted (connections (analysis s) ! i)"
    and "\<forall>a \<in> set as. settles_below n a"
  shows "state (analysis (run parse typed as s)) = state (analysis s)"
  using assms
proof (induction as arbitrary: s)
  case Nil
  then show ?case by simp
next
  case (Cons a as)
  then obtain c x where a: "a = Settle c x" and c: "c < n"
    by (cases a) (auto simp: settles_below_def)
  let ?ex = "\<lambda>ev. typed (data ev)"
  have 1: "state (analysis (step parse typed a s)) = state (analysis s)"
    using settle_all_aborted(1) [OF Cons.prems(1) c] by (simp add: a step_def Let_def)
  have 2: "\<forall>i < n. i < length (connections (analysis (step parse typed a s))) \<and>
                 aborted (connections (analysis (step parse typed a s)) ! i)"
    using settle_all_aborted(2) [OF Cons.prems(1) c, of parse ?ex x] by (simp add: a step_def Let_def)
  have "state (analysis (run parse typed as (step parse typed a s))) =
        state (analysis (step parse typed a s))"
    using 2 Cons.prems(2) by (intro Cons.IH) simp_all
  then show ?case by (simp add: 1)
qed

section \<open>The system: a call whose signal is aborted contributes nothing\<close>

lemma agree_abort_current:
  assumes "agree c h h'"
  shows "length (abort_current h) = length (abort_current h')"
    and "aborted (abort_current h ! c)" and "aborted (abort_current h' ! c)"
    and "\<And>i. i < length (connections h) \<Longrightarrow> i \<noteq> c \<Longrightarrow> abort_current h ! i = abort_current h' ! i"
proof -
  show "length (abort_current h) = length (abort_current h')"
    using assms by (simp add: agree_def)
  show "aborted (abort_current h ! c)"
    using assms by (auto simp: agree_def abort_current_def nth_abort split: option.splits)
  show "aborted (abort_current h' ! c)"
    using assms by (auto simp: agree_def abort_current_def nth_abort split: option.splits)
  fix i assume i: "i < length (connections h)" "i \<noteq> c"
  from assms i have same: "connections h' ! i = connections h ! i"
    and len: "length (connections h') = length (connections h)"
    and ref: "controllerRef h' = controllerRef h"
    by (simp_all add: agree_def)
  show "abort_current h ! i = abort_current h' ! i"
  proof (cases "controllerRef h")
    case None
    then show ?thesis by (simp add: abort_current_def ref same)
  next
    case (Some k)
    then show ?thesis
      using i(1) by (cases "k = i") (simp_all add: abort_current_def ref same len)
  qed
qed

lemma agree_start: "agree c h h' \<Longrightarrow> agree c (start h) (start h')"
  using agree_abort_current [of c h h']
  by (auto simp: agree_def start_def Let_def nth_append)

lemma agree_cancel: "agree c h h' \<Longrightarrow> agree c (cancel h) (cancel h')"
  using agree_abort_current [of c h h']
  by (auto simp: agree_def cancel_def)

lemma agree_settle_other:
  assumes "agree c h h'" and "c' \<noteq> c"
  shows "agree c (settle parse ex c' x h) (settle parse ex c' x h')"
proof (cases "c' < length (connections h)")
  case True
  with assms have same: "connections h ! c' = connections h' ! c'" and len: "c' < length (connections h')"
    by (auto simp: agree_def)
  show ?thesis
    using assms True len same
    by (auto simp: agree_def settle_def Let_def nth_list_update)
next
  case False
  with assms show ?thesis by (auto simp: agree_def settle_def)
qed

lemma agree_settle_same:
  assumes "agree c h h'"
  shows "agree c (settle parse ex c x h) h'"
proof -
  from assms have c: "c < length (connections h)" "aborted (connections h ! c)"
    by (auto simp: agree_def)
  show ?thesis
    using assms by (auto simp: settle_aborted [OF c] agree_def)
qed

lemma agree_hook_step:
  "agree c h h' \<Longrightarrow> \<not> of_connection c a \<Longrightarrow>
   agree c (hook_step parse typed a h) (hook_step parse typed a h')"
  by (cases a) (auto simp: agree_start agree_cancel agree_settle_other)

lemma similar_step_other:
  assumes "similar c s s'" and "\<not> of_connection c a"
  shows "similar c (step parse typed a s) (step parse typed a s')"
proof -
  have ag: "agree c (hook_step parse typed a (analysis s)) (hook_step parse typed a (analysis s'))"
    using assms by (simp add: similar_def agree_hook_step)
  then have "state (hook_step parse typed a (analysis s)) = state (hook_step parse typed a (analysis s'))"
    by (simp add: agree_def)
  then show ?thesis
    using assms ag by (simp add: similar_def step_def Let_def render_fixpoint)
qed

lemma similar_step_same:
  assumes "similar c s s'"
  shows "similar c (step parse typed (Settle c x) s) s'"
proof -
  let ?ex = "\<lambda>ev. typed (data ev)"
  have ag: "agree c (settle parse ?ex c x (analysis s)) (analysis s')"
    using assms by (simp add: similar_def agree_settle_same)
  from assms have c: "c < length (connections (analysis s))" "aborted (connections (analysis s) ! c)"
    by (auto simp: similar_def agree_def)
  have st: "state (settle parse ?ex c x (analysis s)) = state (analysis s)"
    by (simp add: settle_aborted [OF c])
  from assms have at_rest: "\<not> round_is_new (sse_state.result (state (analysis s))) (page s)"
    and pg: "page s = page s'"
    unfolding similar_def by blast+
  have "render (sse_state.result (state (analysis s))) (page s) = page s"
    using at_rest by (rule render_settled)
  then show ?thesis
    using at_rest pg ag st by (simp add: similar_def step_def Let_def)
qed

lemma similar_run:
  "similar c s s' \<Longrightarrow>
   similar c (run parse typed as s) (run parse typed (filter (\<lambda>a. \<not> of_connection c a) as) s')"
proof (induction as arbitrary: s s')
  case Nil
  then show ?case by simp
next
  case (Cons a as)
  show ?case
  proof (cases "of_connection c a")
    case True
    then obtain x where a: "a = Settle c x" by (cases a) auto
    have "similar c (step parse typed a s) s'"
      unfolding a using Cons.prems by (rule similar_step_same)
    then show ?thesis using Cons.IH True by simp
  next
    case False
    have "similar c (step parse typed a s) (step parse typed a s')"
      using Cons.prems False by (rule similar_step_other)
    then show ?thesis using Cons.IH False by simp
  qed
qed

lemma similar_refl:
  "well_formed s \<Longrightarrow> c < length (connections (analysis s)) \<Longrightarrow>
   aborted (connections (analysis s) ! c) \<Longrightarrow> similar c s s"
  by (simp add: similar_def agree_def well_formed_def)

lemma similar_observable: "similar c s s' \<Longrightarrow> observable s = observable s'"
  by (simp add: similar_def agree_def observable_def)

lemma filter_settlements_of:
  "filter (\<lambda>a. \<not> of_connection c a) (map (Settle c) xs) = []"
  by (induction xs) auto

lemma reached_well_formed: "well_formed (run parse typed pre initial_system)"
  by (simp add: well_formed_run well_formed_initial)

lemma step_Cancel:
  assumes "well_formed sys"
  shows "step parse typed Cancel sys = \<lparr>analysis = cancel (analysis sys), page = page sys\<rparr>"
proof -
  have "render (sse_state.result (state (analysis sys))) (page sys) = page sys"
    using assms by (simp add: well_formed_def render_settled)
  then show ?thesis by (simp add: step_def cancel_def)
qed

lemma step_RunAnalysis:
  "step parse typed RunAnalysis sys = \<lparr>analysis = start (analysis sys), page = page sys\<rparr>"
  by (simp add: step_def start_def Let_def render_None)

lemma aborted_after_abort_current:
  assumes "controllerRef h = Some c" and "c < length (connections h)"
  shows "aborted (abort_current h ! c)"
  using assms by (simp add: abort_current_def)

lemma catch_handler_cases:
  "ph \<noteq> Finished \<Longrightarrow>
   fst (connection_step parse ph (Rejected err)) =
     (if name err = ''AbortError'' then [] else [OnError err])"
  by (cases ph) (simp_all add: catch_handler_def)

lemma filter_round_two:
  assumes "c' \<noteq> c"
  shows "filter (\<lambda>a. \<not> of_connection c a)
           (map (Settle c) xs1 @ [Settle c' x] @ map (Settle c) xs2 @ [Settle c' y] @
            map (Settle c) xs3) = [Settle c' x, Settle c' y]"
  using assms by (simp add: filter_settlements_of)

lemma second_round_commits:
  assumes ok: "response_ok status"
    and chunk: "read_chunk parse [] chunk = ([ev], buf)"
    and complete: "event ev = ''complete''"
    and a: "iteration_result.result (typed (data ev)) = Some a"
    and nxt: "iteration_number a = real (length (history (page sys))) + 1"
  shows "history (page (run parse typed
           [Settle (length (connections (analysis sys))) (Response status True),
            Settle (length (connections (analysis sys))) (Chunk chunk)]
           (step parse typed RunAnalysis sys))) =
         history (page sys) @ [\<lparr>iteration = iteration_number a, score = overall_score a\<rparr>]"
proof -
  let ?c' = "length (connections (analysis sys))"
  let ?reset = "\<lparr>loading = True, progress = ''Starting...'', progressDetail = None,
                 sse_state.result = None, error = None\<rparr> :: iteration_result sse_state"
  let ?ex = "\<lambda>ev. typed (data ev)"
  define h1 where "h1 = start (analysis sys)"
  have h1: "state h1 = ?reset" "length (connections h1) = Suc ?c'"
    "connections h1 ! ?c' = \<lparr>aborted = False, phase = Fetching\<rparr>"
    by (simp_all add: h1_def start_def Let_def nth_append)
  define h2 where "h2 = settle parse ?ex ?c' (Response status True) h1"
  have h2: "state h2 = ?reset" "length (connections h2) = Suc ?c'"
    "connections h2 ! ?c' = \<lparr>aborted = False, phase = Reading []\<rparr>"
    using ok h1 by (simp_all add: h2_def settle_def Let_def settlement_callbacks_def)
  define h3 where "h3 = settle parse ?ex ?c' (Chunk chunk) h2"
  have h3: "sse_state.result (state h3) = Some (typed (data ev))"
    using h2 chunk complete
    by (simp add: h3_def settle_def Let_def settlement_callbacks_def on_event_def)
  have s1: "step parse typed RunAnalysis sys = \<lparr>analysis = h1, page = page sys\<rparr>"
    by (simp add: step_RunAnalysis h1_def)
  have s2: "step parse typed (Settle ?c' (Response status True)) \<lparr>analysis = h1, page = page sys\<rparr> =
            \<lparr>analysis = h2, page = page sys\<rparr>"
    by (simp add: step_def h2_def [symmetric] h2 render_None)
  have s3: "step parse typed (Settle ?c' (Chunk chunk)) \<lparr>analysis = h2, page = page sys\<rparr> =
            \<lparr>analysis = h3, page = render (Some (typed (data ev))) (page sys)\<rparr>"
    by (simp add: step_def h3_def [symmetric] h3)
  show ?thesis
    using render_next_round(2) [OF a nxt] by (simp add: s1 s2 s3)
qed

lemmas demo_eval =
  demo_payload_def demo_parse_def demo_typed_def number_field_def initial_system_def initial_useSSE_def
  initial_state_def initial_page_def step_def start_def cancel_def settle_def Let_def
  abort_current_def settlement_callbacks_def response_ok_def read_chunk_def startsWith_def
  trim_def is_white_space_def close_frame_def on_event_def on_error_def catch_handler_def
  abort_error_def render.simps round_is_new_def declared_iteration_def render_pass_def
  commit_round_def observable_def

lemma demo_first_round_reading: "run demo_parse demo_typed [RunAnalysis, Settle 0 (Response 200 True)] initial_system =
  \<lparr>analysis = \<lparr>state = \<lparr>loading = True, progress = ''Starting...'', progressDetail = None,
                   sse_state.result = None, error = None\<rparr>,
     controllerRef = Some 0, connections = [\<lparr>aborted = False, phase = Reading []\<rparr>]\<rparr>,
   page = initial_page\<rparr>"
  by (simp add: demo_eval)

lemma demo_second_chunk: "read_chunk demo_parse [] ''event: complete\<newline>data: second\<newline>\<newline>'' =
    ([\<lparr>event = ''complete'', data = demo_payload 1 82 True\<rparr>], [])"
  by (simp add: demo_eval)

text \<open>
  C9. Round-start state reset: every \<^verbatim>\<open>start\<close> sets the stream state to exactly
  \<^verbatim>\<open>{ loading: true, progress: "Starting...", progressDetail: null, result: null, error: null }\<close>,
  whatever the state was, so nothing of the previous round's result or error is left. It
  does so before anything of the new stream is processed: the call it has just opened is
  the stored controller, is not aborted and is still suspended on \<^verbatim>\<open>fetch\<close>. On the page,
  where \<^verbatim>\<open>runAnalysis\<close> starts the round, the state then stays at this value whatever
  settles in the calls made before: only the new call can change it.
\<close>

theorem start_resets_state:
  "state (start h) =
     \<lparr>loading = True, progress = ''Starting...'', progressDetail = None,
      sse_state.result = None, error = None\<rparr>
   \<and> controllerRef (start h) = Some (length (connections h))
   \<and> connections (start h) ! length (connections h) = \<lparr>aborted = False, phase = Fetching\<rparr>
   \<and> (sys = run parse typed pre initial_system \<longrightarrow>
        (\<forall>as. (\<forall>a \<in> set as. settles_below (length (connections (analysis sys))) a) \<longrightarrow>
           state (analysis (run parse typed as (step parse typed RunAnalysis sys))) =
             \<lparr>loading = True, progress = ''Starting...'', progressDetail = None,
              sse_state.result = None, error = None\<rparr>))"
proof (intro conjI impI allI)
  show "state (start h) =
     \<lparr>loading = True, progress = ''Starting...'', progressDetail = None,
      sse_state.result = None, error = None\<rparr>"
    by (simp add: start_def Let_def)
  show "controllerRef (start h) = Some (length (connections h))"
    by (simp add: start_def Let_def)
  show "connections (start h) ! length (connections h) = \<lparr>aborted = False, phase = Fetching\<rparr>"
    by (simp add: start_def Let_def nth_append)
next
  fix as
  assume reach: "sys = run parse typed pre initial_system"
    and old: "\<forall>a \<in> set as. settles_below (length (connections (analysis sys))) a"
  let ?n = "length (connections (analysis sys))"
  let ?sys1 = "step parse typed RunAnalysis sys"
  have oa: "others_aborted (analysis sys)" unfolding reach by (rule others_aborted_reached)
  have sys1: "?sys1 = \<lparr>analysis = start (analysis sys), page = page sys\<rparr>"
    by (rule step_RunAnalysis)
  have all: "\<forall>i < ?n. i < length (connections (analysis ?sys1)) \<and>
                aborted (connections (analysis ?sys1) ! i)"
    using others_aborted_start [OF oa] by (simp add: sys1 start_def Let_def)
  have "state (analysis (run parse typed as ?sys1)) = state (analysis ?sys1)"
    using all old by (rule run_settles_below)
  then show "state (analysis (run parse typed as ?sys1)) =
             \<lparr>loading = True, progress = ''Starting...'', progressDetail = None,
              sse_state.result = None, error = None\<rparr>"
    by (simp add: sys1 start_def Let_def)
qed

text \<open>
  C9 at a first round that is reading its stream when the second is started: the state is
  the reset value, and stays so when the \<^verbatim>\<open>complete\<close> frame of the first round arrives.
\<close>

theorem start_resets_state_witness:
  "settles_below
     (length (connections (analysis (run demo_parse demo_typed
        [RunAnalysis, Settle 0 (Response 200 True)] initial_system))))
     (Settle 0 (Chunk ''event: complete\<newline>data: first\<newline>\<newline>''))
   \<and> state (analysis (run demo_parse demo_typed
        [Settle 0 (Chunk ''event: complete\<newline>data: first\<newline>\<newline>'')]
        (step demo_parse demo_typed RunAnalysis
          (run demo_parse demo_typed [RunAnalysis, Settle 0 (Response 200 True)]
             initial_system)))) =
       \<lparr>loading = True, progress = ''Starting...'', progressDetail = None,
        sse_state.result = None, error = None\<rparr>"
proof -
  define sys where
    "sys = run demo_parse demo_typed [RunAnalysis, Settle 0 (Response 200 True)] initial_system"
  have val: "sys =
    \<lparr>analysis = \<lparr>state = \<lparr>loading = True, progress = ''Starting...'', progressDetail = None,
                   sse_state.result = None, error = None\<rparr>,
       controllerRef = Some 0, connections = [\<lparr>aborted = False, phase = Reading []\<rparr>]\<rparr>,
     page = initial_page\<rparr>"
    unfolding sys_def by (rule demo_first_round_reading)
  have old: "settles_below (length (connections (analysis sys)))
               (Settle 0 (Chunk ''event: complete\<newline>data: first\<newline>\<newline>''))"
    by (simp add: val settles_below_def)
  note inst = start_resets_state [where sys = sys and parse = demo_parse and typed = demo_typed
      and pre = "[RunAnalysis, Settle 0 (Response 200 True)]" and h = "analysis sys",
      THEN conjunct2, THEN conjunct2, THEN conjunct2, rule_format, OF sys_def,
      of "[Settle 0 (Chunk ''event: complete\<newline>data: first\<newline>\<newline>'')]"]
  show ?thesis
    unfolding sys_def [symmetric] using old inst by simp
qed

text \<open>
  C5. Cancellation is not an error. In a system reached from the initial one, with a
  round started, \<^verbatim>\<open>cancel\<close> leaves the page (its history included) unchanged; from then
  on every settlement of the cancelled call makes no callback at all, so \<^verbatim>\<open>onError\<close> is
  never called for it, and after any number of them the stream state is the state at
  the cancellation with \<^verbatim>\<open>loading\<close> false and the message empty, its \<^verbatim>\<open>error\<close>
  untouched, and the page is the same. In the \<^verbatim>\<open>catch\<close> handler a rejection reaches
  \<^verbatim>\<open>onError\<close> exactly when its name is not \<^verbatim>\<open>AbortError\<close>.
\<close>

theorem cancel_is_not_an_error:
  assumes reach: "sys = run parse typed pre initial_system"
    and flight: "controllerRef (analysis sys) = Some c"
  shows "page (step parse typed Cancel sys) = page sys
     \<and> (\<forall>as x. fst (settlement_callbacks parse
           (connections (analysis (run parse typed as (step parse typed Cancel sys))) ! c) x) = [])
     \<and> (\<forall>xs. observable (run parse typed (map (Settle c) xs) (step parse typed Cancel sys)) =
           ((state (analysis sys))\<lparr>loading := False, progress := []\<rparr>, page sys))
     \<and> (\<forall>err ph. ph \<noteq> Finished \<longrightarrow>
           fst (connection_step parse ph (Rejected err)) =
             (if name err = ''AbortError'' then [] else [OnError err]))"
proof -
  let ?sys1 = "step parse typed Cancel sys"
  have wf: "well_formed sys" unfolding reach by (rule reached_well_formed)
  then have c: "c < length (connections (analysis sys))"
    using flight by (simp add: well_formed_def)
  have sys1: "?sys1 = \<lparr>analysis = cancel (analysis sys), page = page sys\<rparr>"
    using wf by (rule step_Cancel)
  have wf1: "well_formed ?sys1" using wf by (rule well_formed_step)
  have c1: "c < length (connections (analysis ?sys1))"
    using c by (simp add: sys1 cancel_def)
  have ab1: "aborted (connections (analysis ?sys1) ! c)"
    using aborted_after_abort_current [OF flight c] by (simp add: sys1 cancel_def)
  have 1: "page ?sys1 = page sys" by (simp add: sys1)
  have 2: "\<forall>as x. fst (settlement_callbacks parse
           (connections (analysis (run parse typed as ?sys1)) ! c) x) = []"
    using aborted_run [OF c1 ab1, of parse typed] by (simp add: aborted_settlement)
  have 3: "\<forall>xs. observable (run parse typed (map (Settle c) xs) ?sys1) =
           ((state (analysis sys))\<lparr>loading := False, progress := []\<rparr>, page sys)"
  proof
    fix xs
    have "similar c ?sys1 ?sys1" using wf1 c1 ab1 by (rule similar_refl)
    then have "similar c (run parse typed (map (Settle c) xs) ?sys1)
                 (run parse typed (filter (\<lambda>a. \<not> of_connection c a) (map (Settle c) xs)) ?sys1)"
      by (rule similar_run)
    then have "observable (run parse typed (map (Settle c) xs) ?sys1) = observable ?sys1"
      by (simp add: filter_settlements_of similar_observable)
    also have "\<dots> = ((state (analysis sys))\<lparr>loading := False, progress := []\<rparr>, page sys)"
      by (simp add: observable_def sys1 cancel_def)
    finally show "observable (run parse typed (map (Settle c) xs) ?sys1) =
           ((state (analysis sys))\<lparr>loading := False, progress := []\<rparr>, page sys)" .
  qed
  have 4: "\<forall>err ph. ph \<noteq> Finished \<longrightarrow>
           fst (connection_step parse ph (Rejected err)) =
             (if name err = ''AbortError'' then [] else [OnError err])"
    by (simp add: catch_handler_cases)
  from 1 2 3 4 show ?thesis by blast
qed

text \<open>
  C5 at a round that is reading its stream when it is cancelled: a chunk with a complete
  frame and a network failure that arrive afterwards change nothing.
\<close>

theorem cancel_is_not_an_error_witness:
  "controllerRef (analysis (run demo_parse demo_typed
      [RunAnalysis, Settle 0 (Response 200 True)] initial_system)) = Some 0
   \<and> observable (run demo_parse demo_typed
        [Settle 0 (Chunk ''event: complete\<newline>data: first\<newline>\<newline>''),
         Settle 0 (Rejected (JsError ''TypeError'' ''network error''))]
        (step demo_parse demo_typed Cancel
          (run demo_parse demo_typed [RunAnalysis, Settle 0 (Response 200 True)] initial_system))) =
       (\<lparr>loading = False, progress = [], progressDetail = None, sse_state.result = None,
         error = None\<rparr>, initial_page)
   \<and> fst (connection_step demo_parse (Reading []) (Rejected abort_error)) = []
   \<and> fst (connection_step demo_parse (Reading [])
        (Rejected (JsError ''TypeError'' ''network error''))) =
       [OnError (JsError ''TypeError'' ''network error'')]"
proof -
  define sys where
    "sys = run demo_parse demo_typed [RunAnalysis, Settle 0 (Response 200 True)] initial_system"
  have val: "sys =
    \<lparr>analysis = \<lparr>state = \<lparr>loading = True, progress = ''Starting...'', progressDetail = None,
                   sse_state.result = None, error = None\<rparr>,
       controllerRef = Some 0, connections = [\<lparr>aborted = False, phase = Reading []\<rparr>]\<rparr>,
     page = initial_page\<rparr>"
    unfolding sys_def by (rule demo_first_round_reading)
  have flight: "controllerRef (analysis sys) = Some 0" by (simp add: val)
  note inst = cancel_is_not_an_error [OF sys_def flight]
  note later = inst [THEN conjunct2, THEN conjunct2, THEN conjunct1, rule_format]
  note catch = inst [THEN conjunct2, THEN conjunct2, THEN conjunct2, rule_format]
  have 1: "observable (run demo_parse demo_typed
             (map (Settle 0) [Chunk ''event: complete\<newline>data: first\<newline>\<newline>'',
                              Rejected (JsError ''TypeError'' ''network error'')])
             (step demo_parse demo_typed Cancel sys)) =
           (\<lparr>loading = False, progress = [], progressDetail = None, sse_state.result = None,
             error = None\<rparr>, initial_page)"
    using later [of "[Chunk ''event: complete\<newline>data: first\<newline>\<newline>'',
                      Rejected (JsError ''TypeError'' ''network error'')]"]
    by (simp add: val)
  have 2: "fst (connection_step demo_parse (Reading []) (Rejected abort_error)) = []"
    using catch [of "Reading []" abort_error] by (simp add: abort_error_def)
  have 3: "fst (connection_step demo_parse (Reading [])
        (Rejected (JsError ''TypeError'' ''network error''))) =
       [OnError (JsError ''TypeError'' ''network error'')]"
    using catch [of "Reading []" "JsError ''TypeError'' ''network error''"] by simp
  show ?thesis
    unfolding sys_def [symmetric] using flight 1 2 3 by simp
qed

text \<open>
  C3. Superseded rounds never commit. In a system reached from the initial one, with a
  first round started as call \<open>c\<close>, starting a second round aborts the signal of \<open>c\<close> and
  opens the new call, which becomes the stored controller. From then on the settlements
  of \<open>c\<close> contribute nothing: whatever happens afterwards, the stream state and the page
  are the same as if the settlements of \<open>c\<close> had not happened. When the second round then
  delivers its \<^verbatim>\<open>complete\<close> event with the next iteration number, the history grows by
  exactly that one entry, wherever settlements of \<open>c\<close> fall in between.
\<close>

theorem superseded_round_never_commits:
  assumes reach: "sys = run parse typed pre initial_system"
    and first: "controllerRef (analysis sys) = Some c"
  shows "c < length (connections (analysis sys))
     \<and> aborted (connections (analysis (step parse typed RunAnalysis sys)) ! c)
     \<and> controllerRef (analysis (step parse typed RunAnalysis sys)) =
         Some (length (connections (analysis sys)))
     \<and> connections (analysis (step parse typed RunAnalysis sys)) !
         length (connections (analysis sys)) = \<lparr>aborted = False, phase = Fetching\<rparr>
     \<and> (\<forall>as. observable (run parse typed as (step parse typed RunAnalysis sys)) =
           observable (run parse typed (filter (\<lambda>a. \<not> of_connection c a) as)
             (step parse typed RunAnalysis sys)))
     \<and> (\<forall>xs1 xs2 xs3 status chunk ev buf a.
           response_ok status \<and> read_chunk parse [] chunk = ([ev], buf) \<and>
           event ev = ''complete'' \<and> iteration_result.result (typed (data ev)) = Some a \<and>
           iteration_number a = real (length (history (page sys))) + 1 \<longrightarrow>
           history (page (run parse typed
             (map (Settle c) xs1 @
              [Settle (length (connections (analysis sys))) (Response status True)] @
              map (Settle c) xs2 @
              [Settle (length (connections (analysis sys))) (Chunk chunk)] @
              map (Settle c) xs3)
             (step parse typed RunAnalysis sys))) =
           history (page sys) @ [\<lparr>iteration = iteration_number a, score = overall_score a\<rparr>])"
proof -
  let ?sys1 = "step parse typed RunAnalysis sys"
  let ?c' = "length (connections (analysis sys))"
  have wf: "well_formed sys" unfolding reach by (rule reached_well_formed)
  then have c: "c < ?c'"
    using first by (simp add: well_formed_def)
  have sys1: "?sys1 = \<lparr>analysis = start (analysis sys), page = page sys\<rparr>"
    by (rule step_RunAnalysis)
  have wf1: "well_formed ?sys1" using wf by (rule well_formed_step)
  have c1: "c < length (connections (analysis ?sys1))"
    using c by (simp add: sys1 start_def Let_def)
  have ab1: "aborted (connections (analysis ?sys1) ! c)"
    using aborted_after_abort_current [OF first c] c
    by (simp add: sys1 start_def Let_def nth_append)
  have ref1: "controllerRef (analysis ?sys1) = Some ?c'"
    by (simp add: sys1 start_def Let_def)
  have new1: "connections (analysis ?sys1) ! ?c' = \<lparr>aborted = False, phase = Fetching\<rparr>"
    by (simp add: sys1 start_def Let_def nth_append)
  have sim: "similar c ?sys1 ?sys1" using wf1 c1 ab1 by (rule similar_refl)
  have obs: "\<And>as. observable (run parse typed as ?sys1) =
           observable (run parse typed (filter (\<lambda>a. \<not> of_connection c a) as) ?sys1)"
    using similar_run [OF sim] by (rule similar_observable)
  have one: "\<forall>xs1 xs2 xs3 status chunk ev buf a.
           response_ok status \<and> read_chunk parse [] chunk = ([ev], buf) \<and>
           event ev = ''complete'' \<and> iteration_result.result (typed (data ev)) = Some a \<and>
           iteration_number a = real (length (history (page sys))) + 1 \<longrightarrow>
           history (page (run parse typed
             (map (Settle c) xs1 @ [Settle ?c' (Response status True)] @
              map (Settle c) xs2 @ [Settle ?c' (Chunk chunk)] @ map (Settle c) xs3) ?sys1)) =
           history (page sys) @ [\<lparr>iteration = iteration_number a, score = overall_score a\<rparr>]"
  proof (intro allI impI)
    fix xs1 xs2 xs3 status chunk ev buf a
    assume h: "response_ok status \<and> read_chunk parse [] chunk = ([ev], buf) \<and>
           event ev = ''complete'' \<and> iteration_result.result (typed (data ev)) = Some a \<and>
           iteration_number a = real (length (history (page sys))) + 1"
    let ?as = "map (Settle c) xs1 @ [Settle ?c' (Response status True)] @
              map (Settle c) xs2 @ [Settle ?c' (Chunk chunk)] @ map (Settle c) xs3"
    have ne: "?c' \<noteq> c" using c by simp
    have "observable (run parse typed ?as ?sys1) =
          observable (run parse typed [Settle ?c' (Response status True), Settle ?c' (Chunk chunk)] ?sys1)"
      using obs [of ?as] by (simp only: filter_round_two [OF ne])
    then have "page (run parse typed ?as ?sys1) =
          page (run parse typed [Settle ?c' (Response status True), Settle ?c' (Chunk chunk)] ?sys1)"
      by (simp add: observable_def)
    then show "history (page (run parse typed ?as ?sys1)) =
           history (page sys) @ [\<lparr>iteration = iteration_number a, score = overall_score a\<rparr>]"
      using h second_round_commits [of status parse chunk ev buf typed a sys] by simp
  qed
  from c ab1 ref1 new1 obs one show ?thesis by blast
qed

text \<open>
  C3 at a first round that is superseded while it reads its stream: its \<^verbatim>\<open>complete\<close>
  frame (score 55) arrives after the second round has started and is not committed; the
  history holds the one entry of the second round (score 82).
\<close>

theorem superseded_round_never_commits_witness:
  "controllerRef (analysis (run demo_parse demo_typed
      [RunAnalysis, Settle 0 (Response 200 True)] initial_system)) = Some 0
   \<and> response_ok 200
   \<and> read_chunk demo_parse [] ''event: complete\<newline>data: second\<newline>\<newline>'' =
       ([\<lparr>event = ''complete'',
          data = demo_payload 1 82 True\<rparr>], [])
   \<and> history (page (run demo_parse demo_typed
        [Settle 0 (Chunk ''event: complete\<newline>data: first\<newline>\<newline>''),
         Settle 1 (Response 200 True),
         Settle 1 (Chunk ''event: complete\<newline>data: second\<newline>\<newline>''),
         Settle 0 Done]
        (step demo_parse demo_typed RunAnalysis
          (run demo_parse demo_typed [RunAnalysis, Settle 0 (Response 200 True)] initial_system)))) =
       [\<lparr>iteration = 1, score = 82\<rparr>]"
proof -
  define sys where
    "sys = run demo_parse demo_typed [RunAnalysis, Settle 0 (Response 200 True)] initial_system"
  have val: "sys =
    \<lparr>analysis = \<lparr>state = \<lparr>loading = True, progress = ''Starting...'', progressDetail = None,
                   sse_state.result = None, error = None\<rparr>,
       controllerRef = Some 0, connections = [\<lparr>aborted = False, phase = Reading []\<rparr>]\<rparr>,
     page = initial_page\<rparr>"
    unfolding sys_def by (rule demo_first_round_reading)
  have first: "controllerRef (analysis sys) = Some 0" by (simp add: val)
  have len: "length (connections (analysis sys)) = 1" by (simp add: val)
  have hist: "history (page sys) = []" by (simp add: val initial_page_def)
  have ok: "response_ok 200" by (simp add: response_ok_def)
  note inst = superseded_round_never_commits [OF sys_def first]
  note second = inst [THEN conjunct2, THEN conjunct2, THEN conjunct2, THEN conjunct2,
      THEN conjunct2, rule_format]
  have "history (page (run demo_parse demo_typed
             (map (Settle 0) [Chunk ''event: complete\<newline>data: first\<newline>\<newline>''] @
              [Settle (length (connections (analysis sys))) (Response 200 True)] @
              map (Settle 0) [] @
              [Settle (length (connections (analysis sys)))
                 (Chunk ''event: complete\<newline>data: second\<newline>\<newline>'')] @
              map (Settle 0) [Done])
             (step demo_parse demo_typed RunAnalysis sys))) =
           history (page sys) @ [\<lparr>iteration = 1, score = 82\<rparr>]"
    using ok demo_second_chunk
      second [where status = 200
        and chunk = "''event: complete\<newline>data: second\<newline>\<newline>''"
        and ev = "\<lparr>event = ''complete'',
                   data = demo_payload 1 82 True\<rparr>"
        and buf = "[]" and a = "\<lparr>overall_score = 82, iteration_number = 1\<rparr>"
        and ?xs1.0 = "[Chunk ''event: complete\<newline>data: first\<newline>\<newline>'']"
        and ?xs2.0 = "[]" and ?xs3.0 = "[Done]"]
    by (simp add: demo_typed_def demo_payload_def number_field_def hist)
  then show ?thesis
    unfolding sys_def [symmetric] using first ok demo_second_chunk by (simp add: len hist)
qed

end
